theory Spec2Isabelle
  imports Complex_Main
begin

text \<open>
  A model of the language-classification pipeline of the english-validator package
  (\<^verbatim>\<open>src/index.ts\<close>): the text preprocessor, the word classifier, the trigram fallback
  analyser with its two bounded caches, and the decision function \<open>detectNonEnglishText\<close>.
  The regular expression literals of the program are values of a small pattern datatype, run
  by a backtracking matcher.  The patterns built from the geographical terms and the custom
  patterns of a caller are \<open>RegExp\<close> objects with their flags and \<open>lastIndex\<close>, searched
  and replaced as the language definition says.  The dictionary, the list of geographical
  terms, the trigram identifier, the Unicode tables and the pattern compiler of the engine
  are parameters.
\<close>

section \<open>Strings and characters\<close>

text \<open>
  A JavaScript string is a sequence of UTF-16 code units; \<open>length\<close> counts code units.
  IEEE doubles (thresholds, confidences, the english ratio) are modelled by \<open>real\<close>, so the
  division of the two word counters is exact and NaN and the infinities are outside the model.
  Rounding to nearest is monotone, so a comparison of the rounded quotient of two word counts
  with a threshold differs from the exact comparison only when the quotient lies within one
  rounding error of the threshold.
\<close>

type_synonym jsstring = "nat list"

definition ascii :: "string \<Rightarrow> jsstring" where
  "ascii s = map of_char s"

text \<open>The Unicode tables the engine consults outside ASCII are external data.\<close>

record unicode =
  letterCP :: "nat \<Rightarrow> bool"
  upperCU :: "nat \<Rightarrow> nat"
  lowerStr :: "jsstring \<Rightarrow> jsstring"

text \<open>\<open>\s\<close> and \<open>trim\<close>: WhiteSpace and LineTerminator of ECMAScript.\<close>

definition isWhiteSpace :: "nat \<Rightarrow> bool" where
  "isWhiteSpace c \<longleftrightarrow>
     c = 0x9 \<or> c = 0xA \<or> c = 0xB \<or> c = 0xC \<or> c = 0xD \<or> c = 0x20 \<or> c = 0xA0 \<or>
     c = 0x1680 \<or> (0x2000 \<le> c \<and> c \<le> 0x200A) \<or> c = 0x2028 \<or> c = 0x2029 \<or>
     c = 0x202F \<or> c = 0x205F \<or> c = 0x3000 \<or> c = 0xFEFF"

definition isUpperAZ :: "nat \<Rightarrow> bool" where
  "isUpperAZ c \<longleftrightarrow> 65 \<le> c \<and> c \<le> 90"

definition isLowerAZ :: "nat \<Rightarrow> bool" where
  "isLowerAZ c \<longleftrightarrow> 97 \<le> c \<and> c \<le> 122"

definition isDigit :: "nat \<Rightarrow> bool" where
  "isDigit c \<longleftrightarrow> 48 \<le> c \<and> c \<le> 57"

text \<open>\<open>\w\<close>, which also decides \<open>\b\<close>: \<open>[A-Za-z0-9_]\<close>.\<close>

definition isWordChar :: "nat \<Rightarrow> bool" where
  "isWordChar c \<longleftrightarrow> isUpperAZ c \<or> isLowerAZ c \<or> isDigit c \<or> c = 95"

text \<open>
  Canonicalize of a pattern with flag \<open>i\<close> and without flag \<open>u\<close>: the upper-case code unit,
  except that a code unit from 128 on never folds into ASCII.
\<close>

definition canonicalize :: "unicode \<Rightarrow> nat \<Rightarrow> nat" where
  "canonicalize U ch =
     (if ch < 128 then (if isLowerAZ ch then ch - 32 else ch)
      else (let cu = upperCU U ch in if cu < 128 then ch else cu))"

text \<open>\<open>\p{L}\<close> on a code point.\<close>

definition isLetter :: "unicode \<Rightarrow> nat \<Rightarrow> bool" where
  "isLetter U cp = (if cp < 128 then isUpperAZ cp \<or> isLowerAZ cp else letterCP U cp)"

definition toLowerCase :: "unicode \<Rightarrow> jsstring \<Rightarrow> jsstring" where
  "toLowerCase U s =
     (if list_all (\<lambda>c. c < 128) s then map (\<lambda>c. if isUpperAZ c then c + 32 else c) s
      else lowerStr U s)"

definition trim :: "jsstring \<Rightarrow> jsstring" where
  "trim s = rev (dropWhile isWhiteSpace (rev (dropWhile isWhiteSpace s)))"

text \<open>\<open>s.split(sep)\<close> for a one-character separator: never the empty array.\<close>

fun split :: "nat \<Rightarrow> jsstring \<Rightarrow> jsstring list" where
  "split sep [] = [[]]"
| "split sep (x # xs) =
     (if x = sep then [] # split sep xs
      else (case split sep xs of [] \<Rightarrow> [[x]] | w # ws \<Rightarrow> (x # w) # ws))"

section \<open>Regular expressions\<close>

text \<open>
  The patterns of the program, as a datatype, and the backtracking matcher of ECMAScript in
  continuation-passing style.  A matcher state is the code unit before the current position
  (\<open>None\<close> at the start of the input) and the rest of the input.
\<close>

datatype regex =
    Eps
  | Chr "nat \<Rightarrow> bool"
  | Seq regex regex
  | Alt regex regex
  | Rep regex nat nat
  | Many "nat \<Rightarrow> bool" nat
  | WordB
  | Bol
  | Eol

type_synonym mstate = "nat option \<times> jsstring"

definition wordBefore :: "nat option \<Rightarrow> bool" where
  "wordBefore p = (case p of None \<Rightarrow> False | Some c \<Rightarrow> isWordChar c)"

definition wordAfter :: "jsstring \<Rightarrow> bool" where
  "wordAfter rest = (case rest of [] \<Rightarrow> False | c # _ \<Rightarrow> isWordChar c)"

text \<open>A greedy, unbounded repetition of a character class, at least \<open>mn\<close> times.\<close>

fun many :: "(nat \<Rightarrow> bool) \<Rightarrow> nat \<Rightarrow> (mstate \<Rightarrow> mstate option) \<Rightarrow> mstate \<Rightarrow> mstate option" where
  "many P mn c (p, []) = (if mn = 0 then c (p, []) else None)"
| "many P mn c (p, x # xs) =
     (if P x then
        (case many P (mn - 1) c (Some x, xs) of
           Some z \<Rightarrow> Some z
         | None \<Rightarrow> if mn = 0 then c (p, x # xs) else None)
      else if mn = 0 then c (p, x # xs) else None)"

fun rsize :: "regex \<Rightarrow> nat" where
  "rsize (Seq a b) = rsize a + rsize b + 1"
| "rsize (Alt a b) = rsize a + rsize b + 1"
| "rsize (Rep r mn mx) = rsize r + mx + 1"
| "rsize _ = 0"

text \<open>
  A bounded repetition follows RepeatMatcher of the language definition: the greedy branch
  first, and an iteration that is not required and consumes nothing fails.
\<close>

function matcher :: "regex \<Rightarrow> (mstate \<Rightarrow> mstate option) \<Rightarrow> mstate \<Rightarrow> mstate option" where
  "matcher Eps c st = c st"
| "matcher (Chr P) c st =
     (case snd st of [] \<Rightarrow> None | x # xs \<Rightarrow> if P x then c (Some x, xs) else None)"
| "matcher (Seq a b) c st = matcher a (\<lambda>st'. matcher b c st') st"
| "matcher (Alt a b) c st =
     (case matcher a c st of Some z \<Rightarrow> Some z | None \<Rightarrow> matcher b c st)"
| "matcher (Rep r mn mx) c st =
     (if mx = 0 then c st
      else if mn \<noteq> 0 then matcher r (\<lambda>st'. matcher (Rep r (mn - 1) (mx - 1)) c st') st
      else (case matcher r (\<lambda>st'. if length (snd st') = length (snd st) then None
                                   else matcher (Rep r 0 (mx - 1)) c st') st of
              Some z \<Rightarrow> Some z
            | None \<Rightarrow> c st))"
| "matcher (Many P mn) c st = many P mn c st"
| "matcher WordB c st =
     (if wordBefore (fst st) \<noteq> wordAfter (snd st) then c st else None)"
| "matcher Bol c st = (if fst st = None then c st else None)"
| "matcher Eol c st = (if snd st = [] then c st else None)"
  by pat_completeness auto
termination
  by (relation "measure (\<lambda>(r, c, st). rsize r)") auto

text \<open>\<open>regex.test(s)\<close>: is there a match starting at some position, tried left to right.\<close>

fun testFrom :: "regex \<Rightarrow> nat option \<Rightarrow> jsstring \<Rightarrow> bool" where
  "testFrom r p [] = (matcher r Some (p, []) \<noteq> None)"
| "testFrom r p (x # xs) =
     (if matcher r Some (p, x # xs) \<noteq> None then True else testFrom r (Some x) xs)"

definition test :: "regex \<Rightarrow> jsstring \<Rightarrow> bool" where
  "test r s = testFrom r None s"

text \<open>
  \<open>s.replace(regex, rep)\<close> for a literal of the program with flag \<open>g\<close>: every match,
  left to right; after an empty match the search resumes one code unit further.  The call
  sets \<open>lastIndex\<close> to 0 before it searches and leaves it at 0, so these patterns carry no
  state from one call to the next; the literals used with \<open>test\<close> have neither flag \<open>g\<close>
  nor flag \<open>y\<close>.
\<close>

function replaceAllFrom :: "regex \<Rightarrow> jsstring \<Rightarrow> nat option \<Rightarrow> jsstring \<Rightarrow> jsstring" where
  "replaceAllFrom r rep p [] =
     (case matcher r Some (p, []) of Some z \<Rightarrow> rep | None \<Rightarrow> [])"
| "replaceAllFrom r rep p (x # xs) =
     (case matcher r Some (p, x # xs) of
        Some z \<Rightarrow>
          (if length (snd z) < length (x # xs) then rep @ replaceAllFrom r rep (fst z) (snd z)
           else rep @ x # replaceAllFrom r rep (Some x) xs)
      | None \<Rightarrow> x # replaceAllFrom r rep (Some x) xs)"
  by pat_completeness auto
termination
  by (relation "measure (\<lambda>(r, rep, p, s). length s)") auto

definition replaceAll :: "regex \<Rightarrow> jsstring \<Rightarrow> jsstring \<Rightarrow> jsstring" where
  "replaceAll r rep s = replaceAllFrom r rep None s"

text \<open>Sequences, alternatives, and a literal under flag \<open>i\<close>.\<close>

fun seqs :: "regex list \<Rightarrow> regex" where
  "seqs [] = Eps"
| "seqs (r # rs) = Seq r (seqs rs)"

fun alts :: "regex list \<Rightarrow> regex" where
  "alts [] = Chr (\<lambda>_. False)"
| "alts [r] = r"
| "alts (r # rs) = Alt r (alts rs)"

fun litI :: "unicode \<Rightarrow> jsstring \<Rightarrow> regex" where
  "litI U [] = Eps"
| "litI U (a # as) = Seq (Chr (\<lambda>x. canonicalize U x = canonicalize U a)) (litI U as)"

definition classI :: "unicode \<Rightarrow> jsstring \<Rightarrow> regex" where
  "classI U cls = Chr (\<lambda>x. canonicalize U x \<in> set (map (canonicalize U) cls))"

text \<open>
  A global replacement of one character class under flag \<open>u\<close>: the input is read code point
  by code point, a surrogate pair being one code point.
\<close>

definition isHighSurrogate :: "nat \<Rightarrow> bool" where
  "isHighSurrogate c \<longleftrightarrow> 0xD800 \<le> c \<and> c \<le> 0xDBFF"

definition isLowSurrogate :: "nat \<Rightarrow> bool" where
  "isLowSurrogate c \<longleftrightarrow> 0xDC00 \<le> c \<and> c \<le> 0xDFFF"

definition codePoint :: "nat \<Rightarrow> nat \<Rightarrow> nat" where
  "codePoint hi lo = (hi - 0xD800) * 0x400 + (lo - 0xDC00) + 0x10000"

fun replaceAllCP :: "(nat \<Rightarrow> bool) \<Rightarrow> jsstring \<Rightarrow> jsstring \<Rightarrow> jsstring" where
  "replaceAllCP P rep [] = []"
| "replaceAllCP P rep [x] = (if P x then rep else [x])"
| "replaceAllCP P rep (x # y # ys) =
     (if isHighSurrogate x \<and> isLowSurrogate y
      then (if P (codePoint x y) then rep else [x, y]) @ replaceAllCP P rep ys
      else (if P x then rep else [x]) @ replaceAllCP P rep (y # ys))"

section \<open>RegExp objects\<close>

text \<open>
  A \<open>RegExp\<close> object of the engine: its matcher, the flags that decide how \<open>exec\<close> and
  \<open>replace\<close> walk the input, and the mutable property \<open>lastIndex\<close>.  The matcher takes
  the input and an index and answers with the number of code units the match takes from that
  index on; the end index of the match is the index plus that number.  \<open>lastIndex\<close> is read
  through ToLength, so it is a natural number.
\<close>

record RegExp =
  rxMatcher :: "jsstring \<Rightarrow> nat \<Rightarrow> nat option"
  rxGlobal :: bool
  rxSticky :: bool
  rxFullUnicode :: bool
  lastIndex :: nat

text \<open>AdvanceStringIndex: one code unit, or one code point of a pattern with flag \<open>u\<close>.\<close>

definition advanceStringIndex :: "jsstring \<Rightarrow> nat \<Rightarrow> bool \<Rightarrow> nat" where
  "advanceStringIndex S index fullUnicode =
     (if \<not> fullUnicode then index + 1
      else if index + 1 \<ge> length S then index + 1
      else if isHighSurrogate (S ! index) \<and> isLowSurrogate (S ! (index + 1)) then index + 2
      else index + 1)"

text \<open>
  The loop of RegExpBuiltinExec: from \<open>lastIndex\<close> on, the first index at which the matcher
  succeeds, with the end index of the match; a sticky pattern tries \<open>lastIndex\<close> only.
\<close>

function searchFrom ::
  "(jsstring \<Rightarrow> nat \<Rightarrow> nat option) \<Rightarrow> bool \<Rightarrow> bool \<Rightarrow> jsstring \<Rightarrow> nat \<Rightarrow> (nat \<times> nat) option" where
  "searchFrom m sticky fullUnicode S start =
     (if start > length S then None
      else (case m S start of
              Some n \<Rightarrow> Some (start, start + n)
            | None \<Rightarrow>
                if sticky then None
                else searchFrom m sticky fullUnicode S
                       (advanceStringIndex S start fullUnicode)))"
  by pat_completeness auto
termination
  by (relation "measure (\<lambda>(m, sticky, fullUnicode, S, start). length S + 1 - start)")
     (auto simp: advanceStringIndex_def)

declare searchFrom.simps [simp del]

text \<open>
  RegExpBuiltinExec: the index and the text of the match, or \<open>None\<close> for \<open>null\<close>.  Without
  flag \<open>g\<close> or \<open>y\<close> the search starts at 0 and \<open>lastIndex\<close> is left alone; with one of
  them it starts at \<open>lastIndex\<close>, which becomes the end of the match, or 0 on failure.
\<close>

definition regExpBuiltinExec :: "RegExp \<Rightarrow> jsstring \<Rightarrow> (nat \<times> jsstring) option \<times> RegExp" where
  "regExpBuiltinExec R S =
     (let start = (if \<not> rxGlobal R \<and> \<not> rxSticky R then 0 else lastIndex R) in
      case searchFrom (rxMatcher R) (rxSticky R) (rxFullUnicode R) S start of
        None \<Rightarrow> (None, if rxGlobal R \<or> rxSticky R then R\<lparr>lastIndex := 0\<rparr> else R)
      | Some (i, e) \<Rightarrow>
          (Some (i, take (e - i) (drop i S)),
           if rxGlobal R \<or> rxSticky R then R\<lparr>lastIndex := e\<rparr> else R))"

text \<open>
  The loop of \<open>replace\<close> for a pattern with flag \<open>g\<close>, which has set \<open>lastIndex\<close> to 0:
  every match in turn; after a match of the empty string \<open>lastIndex\<close> is advanced.
\<close>

function globalMatches ::
  "(jsstring \<Rightarrow> nat \<Rightarrow> nat option) \<Rightarrow> bool \<Rightarrow> bool \<Rightarrow> jsstring \<Rightarrow> nat \<Rightarrow> (nat \<times> jsstring) list" where
  "globalMatches m sticky fullUnicode S start =
     (case searchFrom m sticky fullUnicode S start of
        None \<Rightarrow> []
      | Some (i, e) \<Rightarrow>
          (i, take (e - i) (drop i S)) #
          globalMatches m sticky fullUnicode S
            (if take (e - i) (drop i S) = [] then advanceStringIndex S e fullUnicode else e))"
  by pat_completeness auto
termination
proof (relation "measure (\<lambda>(m, sticky, fullUnicode, S, start). length S + 1 - start)")
  show "wf (measure (\<lambda>(m, sticky, fullUnicode, S, start). length S + 1 - start))"
    by simp
next
  fix m :: "jsstring \<Rightarrow> nat \<Rightarrow> nat option" and sticky fullUnicode :: bool
    and S :: jsstring and start :: nat and x2 :: "nat \<times> nat" and i e :: nat
  assume found: "searchFrom m sticky fullUnicode S start = Some x2" and x2: "(i, e) = x2"
  have bounds: "searchFrom m sticky fullUnicode S l = Some (a, b) \<Longrightarrow>
                  l \<le> a \<and> a \<le> length S \<and> a \<le> b" for l a b
  proof (induction m sticky fullUnicode S l rule: searchFrom.induct)
    case (1 m sticky fullUnicode S start)
    from "1.prems" have le: "start \<le> length S"
      by (simp add: searchFrom.simps[of m sticky fullUnicode S start] split: if_splits)
    show ?case
    proof (cases "m S start")
      case (Some n)
      with "1.prems" le show ?thesis
        by (simp add: searchFrom.simps[of m sticky fullUnicode S start])
    next
      case None
      with "1.prems" le have ns: "\<not> sticky"
        and rec: "searchFrom m sticky fullUnicode S (advanceStringIndex S start fullUnicode)
                    = Some (a, b)"
        by (simp_all add: searchFrom.simps[of m sticky fullUnicode S start] split: if_splits)
      have "start \<le> advanceStringIndex S start fullUnicode"
        by (simp add: advanceStringIndex_def)
      with "1.IH"[OF _ None ns rec] le show ?thesis by simp
    qed
  qed
  from found x2 bounds[of start i e]
  have b: "start \<le> i" "i \<le> length S" "i \<le> e" by simp_all
  have adv: "e < advanceStringIndex S e fullUnicode" by (simp add: advanceStringIndex_def)
  show "((m, sticky, fullUnicode, S,
          if take (e - i) (drop i S) = [] then advanceStringIndex S e fullUnicode else e),
         (m, sticky, fullUnicode, S, start))
          \<in> measure (\<lambda>(m, sticky, fullUnicode, S, start). length S + 1 - start)"
    using b adv by auto
qed

declare globalMatches.simps [simp del]

text \<open>
  The result of \<open>replace\<close> with the empty string as replacement: the text between the
  matches, a match that starts before the end of the previous one being skipped.
\<close>

fun removeSegments :: "jsstring \<Rightarrow> nat \<Rightarrow> (nat \<times> jsstring) list \<Rightarrow> jsstring" where
  "removeSegments S nextSourcePosition [] = drop nextSourcePosition S"
| "removeSegments S nextSourcePosition ((position, matched) # results) =
     (if position \<ge> nextSourcePosition
      then take (position - nextSourcePosition) (drop nextSourcePosition S) @
           removeSegments S (position + length matched) results
      else removeSegments S nextSourcePosition results)"

text \<open>
  \<open>S.replace(R, "")\<close> for a \<open>RegExp\<close> object \<open>R\<close>: the new text and the object as the
  call leaves it.  With flag \<open>g\<close> the call sets \<open>lastIndex\<close> to 0, collects every match,
  and the failing last search leaves \<open>lastIndex\<close> at 0; without it there is one search.
\<close>

definition regExpReplace :: "RegExp \<Rightarrow> jsstring \<Rightarrow> jsstring \<times> RegExp" where
  "regExpReplace R S =
     (if rxGlobal R
      then (removeSegments S 0
              (globalMatches (rxMatcher R) (rxSticky R) (rxFullUnicode R) S 0),
            R\<lparr>lastIndex := 0\<rparr>)
      else (case regExpBuiltinExec R S of
              (None, R') \<Rightarrow> (S, R')
            | (Some result, R') \<Rightarrow> (removeSegments S 0 [result], R')))"

text \<open>The matcher of a pattern of the datatype above, by index into the input.\<close>

definition prevUnit :: "jsstring \<Rightarrow> nat \<Rightarrow> nat option" where
  "prevUnit S i = (if i = 0 then None else Some (S ! (i - 1)))"

definition regexMatcher :: "regex \<Rightarrow> jsstring \<Rightarrow> nat \<Rightarrow> nat option" where
  "regexMatcher r S i =
     (case matcher r Some (prevUnit S i, drop i S) of
        None \<Rightarrow> None
      | Some z \<Rightarrow> Some (length S - i - length (snd z)))"

text \<open>
  \<open>new RegExp(source, flags)\<close>.  The syntax characters of a pattern are
  \<^verbatim>\<open>^ $ \ . * + ? ( ) [ ] { } |\<close>.  A source that is an alternation of sequences of
  \<open>\b\<close>, the dot, an escaped syntax character or slash, and characters that are no syntax
  characters is parsed here, for the flags \<open>g\<close>, \<open>i\<close> and \<open>y\<close>; the matcher of any other
  source, or with any other flag, is what the engine compiles, which is external.  A source
  that is no pattern makes the constructor throw a SyntaxError; the patterns built from the
  geographical terms are built when the module is loaded, so the functions below belong to a
  module for which that did not happen.
\<close>

definition isSyntaxCharacter :: "nat \<Rightarrow> bool" where
  "isSyntaxCharacter c \<longleftrightarrow>
     c \<in> set [94, 36, 92, 46, 42, 43, 63, 40, 41, 91, 93, 123, 125, 124]"

definition isLineTerminator :: "nat \<Rightarrow> bool" where
  "isLineTerminator c \<longleftrightarrow> c = 0xA \<or> c = 0xD \<or> c = 0x2028 \<or> c = 0x2029"

definition patternChar :: "unicode \<Rightarrow> bool \<Rightarrow> nat \<Rightarrow> regex" where
  "patternChar U ignoreCase a =
     Chr (\<lambda>x. if ignoreCase then canonicalize U x = canonicalize U a else x = a)"

definition addTerm :: "regex \<Rightarrow> regex list list \<Rightarrow> regex list list" where
  "addTerm t as = (case as of [] \<Rightarrow> [[t]] | a # rest \<Rightarrow> (t # a) # rest)"

fun parseAlternatives :: "unicode \<Rightarrow> bool \<Rightarrow> jsstring \<Rightarrow> regex list list option" where
  "parseAlternatives U ignoreCase [] = Some [[]]"
| "parseAlternatives U ignoreCase [c] =
     (if c = 124 then Some [[], []]
      else if c = 46 then Some [[Chr (\<lambda>x. \<not> isLineTerminator x)]]
      else if isSyntaxCharacter c then None
      else Some [[patternChar U ignoreCase c]])"
| "parseAlternatives U ignoreCase (c # d # ds) =
     (if c = 92 then
        (if d = 98 then map_option (addTerm WordB) (parseAlternatives U ignoreCase ds)
         else if isSyntaxCharacter d \<or> d = 47
         then map_option (addTerm (patternChar U ignoreCase d)) (parseAlternatives U ignoreCase ds)
         else None)
      else if c = 124 then map_option (\<lambda>as. [] # as) (parseAlternatives U ignoreCase (d # ds))
      else if c = 46
      then map_option (addTerm (Chr (\<lambda>x. \<not> isLineTerminator x)))
             (parseAlternatives U ignoreCase (d # ds))
      else if isSyntaxCharacter c then None
      else map_option (addTerm (patternChar U ignoreCase c))
             (parseAlternatives U ignoreCase (d # ds)))"

definition parsePattern :: "unicode \<Rightarrow> jsstring \<Rightarrow> jsstring \<Rightarrow> regex option" where
  "parsePattern U source flags =
     (if list_all (\<lambda>f. f = 103 \<or> f = 105 \<or> f = 121) flags
      then map_option (\<lambda>as. alts (map seqs as)) (parseAlternatives U (105 \<in> set flags) source)
      else None)"

section \<open>Module-level constants and precompiled patterns\<close>

definition FRANC_CACHE_LIMIT :: nat where
  "FRANC_CACHE_LIMIT = 1000"

definition WORD_CACHE_LIMIT :: nat where
  "WORD_CACHE_LIMIT = 5000"

definition hyphen :: regex where
  "hyphen = Chr (\<lambda>c. c = 45)"

text \<open>
  The four document ID patterns used for removal, each with flag \<open>g\<close>:
  \<^verbatim>\<open>\b[A-Z]{2,6}\d{0,4}(-[A-Z]{2,6}\d{0,4}){1,4}\b\<close>,
  \<^verbatim>\<open>\b[A-Z]{2,6}\d{2,4}-[A-Z]{1,3}\d{1,3}\b\<close>,
  \<^verbatim>\<open>\b[A-Z]{2,6}\d{1,4}\b\<close> and
  \<^verbatim>\<open>\b[A-Z]{2,4}-[A-Z]{2,4}\d{2,4}\b\<close>.
\<close>

definition DOCUMENT_PATTERNS_REMOVE :: "regex list" where
  "DOCUMENT_PATTERNS_REMOVE =
     [seqs [WordB, Rep (Chr isUpperAZ) 2 6, Rep (Chr isDigit) 0 4,
            Rep (seqs [hyphen, Rep (Chr isUpperAZ) 2 6, Rep (Chr isDigit) 0 4]) 1 4, WordB],
      seqs [WordB, Rep (Chr isUpperAZ) 2 6, Rep (Chr isDigit) 2 4, hyphen,
            Rep (Chr isUpperAZ) 1 3, Rep (Chr isDigit) 1 3, WordB],
      seqs [WordB, Rep (Chr isUpperAZ) 2 6, Rep (Chr isDigit) 1 4, WordB],
      seqs [WordB, Rep (Chr isUpperAZ) 2 4, hyphen, Rep (Chr isUpperAZ) 2 4,
            Rep (Chr isDigit) 2 4, WordB]]"

text \<open>
  The character class of \<open>NON_ENGLISH_CHARS_REGEX\<close> (flag \<open>i\<close>), by code unit, and the
  word lists of the suffix pattern \<^verbatim>\<open>(?:keit|schaft|...)$\<close>, of the function-word pattern
  \<^verbatim>\<open>^(le|la|...)$\<close> and of the eight vocabulary patterns, all with flag \<open>i\<close>.  A code
  unit outside ASCII is written as a number.
\<close>

definition NON_ENGLISH_CHARS :: jsstring where
  "NON_ENGLISH_CHARS =
     [0xE4, 0xF6, 0xFC, 0xDF, 0xE9, 0xE8, 0xEA, 0xEB, 0xE0, 0xE2, 0xE7, 0xF9, 0xFB, 0xFF,
      0xE6, 0x153, 0xE1, 0xED, 0xF3, 0xFA, 0xF1, 0xA1, 0xBF, 0xEC, 0xF2, 0xE5, 0xF8, 0x105,
      0x107, 0x119, 0x142, 0x144, 0x15B, 0x17A, 0x17C, 0x15F, 0x11F, 0x131]"

definition NON_ENGLISH_CHARS_REGEX :: "unicode \<Rightarrow> regex" where
  "NON_ENGLISH_CHARS_REGEX U = classI U NON_ENGLISH_CHARS"

definition NON_ENGLISH_ENDINGS :: "jsstring list" where
  "NON_ENGLISH_ENDINGS =
     [ascii ''keit'', ascii ''schaft'', ascii ''ci'' @ [0xF3] @ ascii ''n'', ascii ''zione'',
      ascii ''mente'', ascii ''baar'', ascii ''lijk'', ascii ''eur'', ascii ''agem'',
      [0xE7] @ [0xE3] @ ascii ''o'']"

definition NON_ENGLISH_FUNCTION_WORDS :: "jsstring list" where
  "NON_ENGLISH_FUNCTION_WORDS =
     [ascii ''le'', ascii ''la'', ascii ''les'', ascii ''du'', ascii ''des'', ascii ''dans'',
      ascii ''avec'', ascii ''sans'', ascii ''sur'', ascii ''sous'', ascii ''entre'',
      ascii ''el'', ascii ''los'', ascii ''las'', ascii ''del'', ascii ''al'', ascii ''con'',
      ascii ''sin'', ascii ''por'', ascii ''der'', ascii ''die'', ascii ''das'',
      ascii ''den'', ascii ''dem'', ascii ''des'', ascii ''ein'', ascii ''eine'',
      ascii ''einen'', ascii ''einem'', ascii ''einer'', ascii ''eines'', ascii ''mit'',
      ascii ''il'', ascii ''lo'', ascii ''gli'', ascii ''het'', ascii ''een'', ascii ''op'',
      ascii ''aan'', ascii ''voor'', ascii ''met'', ascii ''door'', ascii ''os'',
      ascii ''dos'', ascii ''das'', ascii ''nos'', ascii ''nas'', ascii ''um'',
      ascii ''uma'']"

definition NON_ENGLISH_WORDS_1 :: "jsstring list" where
  "NON_ENGLISH_WORDS_1 =
     [ascii ''und'', ascii ''oder'', ascii ''Wann'', ascii ''aber'', ascii ''Kann'',
      ascii ''wenn'', ascii ''weil'', ascii ''dass'', ascii ''ob'',
      ascii ''f'' @ [0xFC] @ ascii ''r'', ascii ''nicht'', ascii ''kein'', ascii ''keine'',
      ascii ''nur'', ascii ''sehr'', ascii ''schon'', ascii ''noch'', ascii ''jetzt'',
      ascii ''immer'', ascii ''wieder'', ascii ''m'' @ [0xF6] @ ascii ''chte'',
      ascii ''w'' @ [0xFC] @ ascii ''rde'', ascii ''h'' @ [0xE4] @ ascii ''tte'',
      ascii ''k'' @ [0xF6] @ ascii ''nnte'', ascii ''sollte'',
      ascii ''m'' @ [0xFC] @ ascii ''sste'', ascii ''d'' @ [0xFC] @ ascii ''rfte'']"

definition NON_ENGLISH_WORDS_2 :: "jsstring list" where
  "NON_ENGLISH_WORDS_2 =
     [ascii ''que'', ascii ''como'', ascii ''porque'', ascii ''pero'', ascii ''cuando'',
      ascii ''donde'', ascii ''quien'', ascii ''cual'', ascii ''este'', ascii ''esta'',
      ascii ''estos'', ascii ''estas'', ascii ''ese'', ascii ''esa'', ascii ''esos'',
      ascii ''esas'', ascii ''aquel'', ascii ''aquella'', ascii ''aquellos'',
      ascii ''aquellas'']"

definition NON_ENGLISH_WORDS_3 :: "jsstring list" where
  "NON_ENGLISH_WORDS_3 =
     [ascii ''est'', ascii ''sont'', [0xE9] @ ascii ''tait'', [0xEA] @ ascii ''tre'',
      ascii ''avoir'', ascii ''faire'', ascii ''dire'', ascii ''voir'', ascii ''pouvoir'',
      ascii ''vouloir'', ascii ''devoir'', ascii ''falloir'', ascii ''savoir'',
      ascii ''quand'', ascii ''o'' @ [0xF9], ascii ''pourquoi'', ascii ''qui'',
      ascii ''quel'', ascii ''quelle'', ascii ''quels'', ascii ''quelles'', ascii ''ce'',
      ascii ''cette'', ascii ''ces'', ascii ''cet'']"

definition NON_ENGLISH_WORDS_4 :: "jsstring list" where
  "NON_ENGLISH_WORDS_4 =
     [ascii ''sono'', ascii ''sei'', [0xE8], ascii ''siamo'', ascii ''siete'', ascii ''sono'',
      ascii ''essere'', ascii ''avere'', ascii ''fare'', ascii ''dire'', ascii ''andare'',
      ascii ''vedere'', ascii ''dare'', ascii ''sapere'', ascii ''potere'', ascii ''volere'',
      ascii ''come'', ascii ''quando'', ascii ''dove'', ascii ''perch'' @ [0xE9],
      ascii ''chi'', ascii ''quale'', ascii ''quali'']"

definition NON_ENGLISH_WORDS_5 :: "jsstring list" where
  "NON_ENGLISH_WORDS_5 =
     [ascii ''en'', ascii ''hoe'', ascii ''es'', ascii ''Er'', ascii ''Wanneer'',
      ascii ''je'', ascii ''stel'', ascii ''kritiek'', ascii ''et'', ascii ''kritisk'',
      ascii ''maar'', ascii ''want'', ascii ''omdat'', ascii ''hoewel'', ascii ''terwijl'',
      ascii ''tenzij'', ascii ''indien'', ascii ''toen'', ascii ''totdat'', ascii ''voordat'',
      ascii ''nadat'', ascii ''zodat'', ascii ''mits'', ascii ''toch'', ascii ''dus'',
      ascii ''immers'', ascii ''namelijk'']"

definition NON_ENGLISH_WORDS_6 :: "jsstring list" where
  "NON_ENGLISH_WORDS_6 =
     [ascii ''eu'', ascii ''tu'', ascii ''ele'', ascii ''ela'',
      ascii ''n'' @ [0xF3] @ ascii ''s'', ascii ''v'' @ [0xF3] @ ascii ''s'', ascii ''eles'',
      ascii ''elas'', ascii ''isto'', ascii ''isso'', ascii ''aquilo'', ascii ''mesmo'',
      ascii ''mesma'', ascii ''mesmos'', ascii ''mesmas'',
      ascii ''pr'' @ [0xF3] @ ascii ''prio'', ascii ''pr'' @ [0xF3] @ ascii ''pria'',
      ascii ''pr'' @ [0xF3] @ ascii ''prios'', ascii ''pr'' @ [0xF3] @ ascii ''prias'']"

definition NON_ENGLISH_WORDS_7 :: "jsstring list" where
  "NON_ENGLISH_WORDS_7 =
     [ascii ''ben'', ascii ''sen'', ascii ''biz'', ascii ''siz'', ascii ''onlar'',
      ascii ''bana'', ascii ''sana'', ascii ''ona'', ascii ''bize'', ascii ''size'',
      ascii ''onlara'', ascii ''benim'', ascii ''senin'', ascii ''onun'', ascii ''bizim'',
      ascii ''sizin'', ascii ''onlar'' @ [0x131] @ ascii ''n'']"

definition NON_ENGLISH_WORDS_8 :: "jsstring list" where
  "NON_ENGLISH_WORDS_8 =
     [ascii ''jeg'', ascii ''mig'', ascii ''min'', ascii ''mit'', ascii ''mine'',
      ascii ''dig'', ascii ''din'', ascii ''dit'', ascii ''dine'', ascii ''han'',
      ascii ''ham'', ascii ''hans'', ascii ''hun'', ascii ''hende'', ascii ''hendes'',
      ascii ''den'', ascii ''det'', ascii ''de'', ascii ''dem'', ascii ''deres'',
      ascii ''denne'', ascii ''dette'', ascii ''disse'']"

definition NON_ENGLISH_ENDINGS_REGEX :: "unicode \<Rightarrow> regex" where
  "NON_ENGLISH_ENDINGS_REGEX U = seqs [alts (map (litI U) NON_ENGLISH_ENDINGS), Eol]"

definition anchoredWords :: "unicode \<Rightarrow> jsstring list \<Rightarrow> regex" where
  "anchoredWords U ws = seqs [Bol, alts (map (litI U) ws), Eol]"

definition NON_ENGLISH_FUNCTION_WORDS_REGEX :: "unicode \<Rightarrow> regex" where
  "NON_ENGLISH_FUNCTION_WORDS_REGEX U = anchoredWords U NON_ENGLISH_FUNCTION_WORDS"

definition NON_ENGLISH_WORD_PATTERNS :: "unicode \<Rightarrow> regex list" where
  "NON_ENGLISH_WORD_PATTERNS U =
     map (anchoredWords U)
       [NON_ENGLISH_WORDS_1, NON_ENGLISH_WORDS_2, NON_ENGLISH_WORDS_3, NON_ENGLISH_WORDS_4,
        NON_ENGLISH_WORDS_5, NON_ENGLISH_WORDS_6, NON_ENGLISH_WORDS_7, NON_ENGLISH_WORDS_8]"

text \<open>
  The class of \<open>WORD_PUNCTUATION_REGEX\<close>, by code unit:
  \<^verbatim>\<open>' - " ` ~ ! @ # $ % ^ & * ( ) + = { } [ ] | \ : ; < > ? , . /\<close>.
\<close>

definition isWordPunctuation :: "nat \<Rightarrow> bool" where
  "isWordPunctuation c \<longleftrightarrow>
     c \<in> set [39, 45, 34, 96, 126, 33, 64, 35, 36, 37, 94, 38, 42, 40, 41, 43, 61, 123, 125,
                91, 93, 124, 92, 58, 59, 60, 62, 63, 44, 46, 47]"

definition WORD_PUNCTUATION_REGEX :: regex where
  "WORD_PUNCTUATION_REGEX = Chr isWordPunctuation"

definition WHITESPACE_REGEX :: regex where
  "WHITESPACE_REGEX = Many isWhiteSpace 1"

text \<open>
  \<open>NON_LETTER_REGEX\<close> matches a code point that is no letter, no white space and none of
  \<^verbatim>\<open>. , ! ? : ; ' " ( ) -\<close>.
\<close>

definition nonLetter :: "unicode \<Rightarrow> nat \<Rightarrow> bool" where
  "nonLetter U cp \<longleftrightarrow>
     \<not> (isLetter U cp \<or> isWhiteSpace cp \<or>
        cp \<in> set [46, 44, 33, 63, 58, 59, 39, 34, 40, 41, 45])"

text \<open>
  \<^verbatim>\<open>^[a-zA-Z0-9'-]+$\<close>, \<^verbatim>\<open>^\d+$\<close> and \<^verbatim>\<open>^[A-Z]{2,}[0-9]*$\<close>.
\<close>

definition englishChar :: "nat \<Rightarrow> bool" where
  "englishChar c \<longleftrightarrow> isLowerAZ c \<or> isUpperAZ c \<or> isDigit c \<or> c = 39 \<or> c = 45"

definition ENGLISH_CHARS_REGEX :: regex where
  "ENGLISH_CHARS_REGEX = seqs [Bol, Many englishChar 1, Eol]"

definition NUMBERS_ONLY_REGEX :: regex where
  "NUMBERS_ONLY_REGEX = seqs [Bol, Many isDigit 1, Eol]"

definition ABBREVIATION_REGEX :: regex where
  "ABBREVIATION_REGEX = seqs [Bol, Many isUpperAZ 2, Many isDigit 0, Eol]"

section \<open>Data model\<close>

text \<open>The value a caller may pass where a string is expected.\<close>

datatype jsvalue =
    JSUndefined
  | JSNull
  | JSBoolean bool
  | JSNumber real
  | JSString jsstring
  | JSObject

text \<open>
  The custom patterns of a caller are \<open>RegExp\<close> objects of the caller, which \<open>replace\<close>
  mutates: an options record holds references to them, and a store gives the object a
  reference denotes.  One object may occur at several places of the array and in the options
  of several calls.
\<close>

type_synonym ref = nat

type_synonym store = "ref \<Rightarrow> RegExp"

text \<open>An absent option is \<open>None\<close>.\<close>

record DetectionOptions =
  englishThreshold :: "real option"
  minWordLength :: "real option"
  allowNumbers :: "bool option"
  allowAbbreviations :: "bool option"
  customPatterns :: "ref list option"
  excludeWords :: "jsstring list option"

record LanguageResult =
  language :: jsstring
  confidence :: real

record WordOptions =
  woAllowNumbers :: bool
  woAllowAbbreviations :: bool

text \<open>
  The external collaborators: the Unicode tables, the pattern compiler of the engine (from a
  source and flags to a matcher), the dictionary module (the word set and the geographical
  terms) and the trigram identifier \<open>francAll\<close>.
\<close>

record env =
  uni :: unicode
  engineMatcher :: "jsstring \<Rightarrow> jsstring \<Rightarrow> jsstring \<Rightarrow> nat \<Rightarrow> nat option"
  englishDictionary :: "jsstring set"
  wordsToRemove :: "(jsstring \<times> bool) list"
  francAll :: "jsstring \<Rightarrow> (jsstring \<times> real) list"

definition newRegExp :: "env \<Rightarrow> jsstring \<Rightarrow> jsstring \<Rightarrow> RegExp" where
  "newRegExp E source flags =
     \<lparr>rxMatcher = (case parsePattern (uni E) source flags of
                     Some r \<Rightarrow> regexMatcher r
                   | None \<Rightarrow> engineMatcher E source flags),
      rxGlobal = (103 \<in> set flags),
      rxSticky = (121 \<in> set flags),
      rxFullUnicode = (117 \<in> set flags \<or> 118 \<in> set flags),
      lastIndex = 0\<rparr>"

text \<open>
  The geographical terms come from the dictionary module, which is external data here.  A
  term is spliced into the pattern source as it is, syntax characters included:
  \<^verbatim>\<open>new RegExp(`\\b${word}\\b|\\b${word}s\\b`, "i")\<close>.
\<close>

definition geoPattern :: "env \<Rightarrow> jsstring \<Rightarrow> RegExp" where
  "geoPattern E word =
     newRegExp E ([92, 98] @ word @ [92, 98, 124, 92, 98] @ word @ [115, 92, 98]) (ascii ''i'')"

definition GEO_TERM_PATTERNS :: "env \<Rightarrow> RegExp list" where
  "GEO_TERM_PATTERNS E = map (\<lambda>(word, flag). geoPattern E word) (wordsToRemove E)"

text \<open>
  A \<open>Map\<close> keeps its entries in insertion order; \<open>set\<close> on a present key changes the value
  in place, \<open>keys().next()\<close> is the first entry.
\<close>

type_synonym ('k, 'v) jsmap = "('k \<times> 'v) list"

definition mapHas :: "('k, 'v) jsmap \<Rightarrow> 'k \<Rightarrow> bool" where
  "mapHas m k \<longleftrightarrow> k \<in> set (map fst m)"

definition mapGet :: "('k, 'v) jsmap \<Rightarrow> 'k \<Rightarrow> 'v option" where
  "mapGet m k = map_of m k"

fun mapSet :: "('k, 'v) jsmap \<Rightarrow> 'k \<Rightarrow> 'v \<Rightarrow> ('k, 'v) jsmap" where
  "mapSet [] k v = [(k, v)]"
| "mapSet ((k', v') # m) k v = (if k' = k then (k, v) # m else (k', v') # mapSet m k v)"

definition mapDelete :: "('k, 'v) jsmap \<Rightarrow> 'k \<Rightarrow> ('k, 'v) jsmap" where
  "mapDelete m k = filter (\<lambda>e. fst e \<noteq> k) m"

definition mapSize :: "('k, 'v) jsmap \<Rightarrow> nat" where
  "mapSize m = length m"

definition mapFirstKey :: "('k, 'v) jsmap \<Rightarrow> 'k option" where
  "mapFirstKey m = (case m of [] \<Rightarrow> None | e # _ \<Rightarrow> Some (fst e))"

record caches =
  francCache :: "(jsstring, jsstring \<times> real) jsmap"
  wordCache :: "(jsstring, bool) jsmap"

definition emptyCaches :: caches where
  "emptyCaches = \<lparr>francCache = [], wordCache = []\<rparr>"

datatype error = TypeError

section \<open>Utility helpers\<close>

definition cacheSet :: "('k, 'v) jsmap \<Rightarrow> nat \<Rightarrow> 'k \<Rightarrow> 'v \<Rightarrow> ('k, 'v) jsmap" where
  "cacheSet cache limit key val =
     (let cache' =
        (if mapSize cache \<ge> limit then
           (case mapFirstKey cache of None \<Rightarrow> cache | Some firstKey \<Rightarrow> mapDelete cache firstKey)
         else cache)
      in mapSet cache' key val)"

definition isNonEmptyString :: "jsvalue \<Rightarrow> bool" where
  "isNonEmptyString v = (case v of JSString s \<Rightarrow> length s > 0 | _ \<Rightarrow> False)"

definition normalizeWhitespace :: "jsstring \<Rightarrow> jsstring" where
  "normalizeWhitespace text = trim (replaceAll WHITESPACE_REGEX (ascii '' '') text)"

section \<open>Core language analysis\<close>

text \<open>The loop over \<open>detectedLanguage.slice(0, 5)\<close>.\<close>

fun scanTop :: "(jsstring \<times> real) list \<Rightarrow> (jsstring \<times> real) option" where
  "scanTop [] = None"
| "scanTop ((lang, conf) # rest) =
     (if lang = ascii ''eng'' \<and> conf \<ge> 9 / 10 then Some (lang, conf) else scanTop rest)"

text \<open>
  Destructuring \<open>detectedLanguage[0]\<close> of an empty ranking throws a TypeError, before the
  cache is written.
\<close>

definition francLanguageAnalysis :: "env \<Rightarrow> caches \<Rightarrow> jsstring \<Rightarrow> (error + LanguageResult) \<times> caches" where
  "francLanguageAnalysis E st cleanText =
     (if mapHas (francCache st) cleanText then
        (case mapGet (francCache st) cleanText of
           Some (lang, conf) \<Rightarrow> (Inr \<lparr>language = lang, confidence = conf\<rparr>, st)
         | None \<Rightarrow> (Inl TypeError, st))
      else
        (let detectedLanguage = francAll E cleanText in
         case scanTop (take 5 detectedLanguage) of
           Some (lang, conf) \<Rightarrow>
             (Inr \<lparr>language = lang, confidence = conf\<rparr>,
              st\<lparr>francCache := cacheSet (francCache st) FRANC_CACHE_LIMIT cleanText (lang, conf)\<rparr>)
         | None \<Rightarrow>
             (case detectedLanguage of
                [] \<Rightarrow> (Inl TypeError, st)
              | d0 # _ \<Rightarrow>
                  (Inr \<lparr>language = fst d0, confidence = snd d0\<rparr>,
                   st\<lparr>francCache := cacheSet (francCache st) FRANC_CACHE_LIMIT cleanText d0\<rparr>))))"

section \<open>Document patterns and geographical terms\<close>

definition removeDocumentPatterns :: "jsstring \<Rightarrow> jsstring" where
  "removeDocumentPatterns text =
     normalizeWhitespace (fold (\<lambda>pattern cleaned. replaceAll pattern [] cleaned)
                               DOCUMENT_PATTERNS_REMOVE text)"

text \<open>
  The patterns of the geographical terms have neither flag \<open>g\<close> nor flag \<open>y\<close>, so
  \<open>replace\<close> does not write to them and the loop keeps the new text only.
\<close>

definition removeGeographicalTerms :: "env \<Rightarrow> jsstring \<Rightarrow> jsstring" where
  "removeGeographicalTerms E inputText =
     (if \<not> isNonEmptyString (JSString inputText) then inputText
      else normalizeWhitespace
             (fold (\<lambda>pattern result. fst (regExpReplace pattern result))
                   (GEO_TERM_PATTERNS E) inputText))"

section \<open>Non-English indicator checks\<close>

definition hasNonEnglishCharacters :: "unicode \<Rightarrow> jsstring \<Rightarrow> bool" where
  "hasNonEnglishCharacters U text = test (NON_ENGLISH_CHARS_REGEX U) text"

definition hasNonEnglishEndings :: "unicode \<Rightarrow> jsstring \<Rightarrow> bool" where
  "hasNonEnglishEndings U text = test (NON_ENGLISH_ENDINGS_REGEX U) text"

definition hasNonEnglishWordPatterns :: "unicode \<Rightarrow> jsstring \<Rightarrow> bool" where
  "hasNonEnglishWordPatterns U text =
     list_ex (\<lambda>pattern. test pattern text) (NON_ENGLISH_WORD_PATTERNS U)"

definition hasObviousNonEnglishIndicators :: "unicode \<Rightarrow> jsstring \<Rightarrow> bool" where
  "hasObviousNonEnglishIndicators U text =
     (if \<not> isNonEmptyString (JSString text) \<or> length text < 2 then False
      else if 32 \<notin> set text \<and> (hasNonEnglishCharacters U text \<or> hasNonEnglishEndings U text)
      then True
      else hasNonEnglishWordPatterns U text \<or> test (NON_ENGLISH_FUNCTION_WORDS_REGEX U) text)"

section \<open>Word-level analysis\<close>

definition hasOnlyEnglishCharacters :: "jsstring \<Rightarrow> bool" where
  "hasOnlyEnglishCharacters word = test ENGLISH_CHARS_REGEX word"

text \<open>\<open>word.split("'")[0]\<close> is the part before the first apostrophe.\<close>

definition isEnglishWord :: "env \<Rightarrow> jsstring \<Rightarrow> WordOptions \<Rightarrow> bool" where
  "isEnglishWord E word options =
     (if \<not> hasOnlyEnglishCharacters word then False
      else if woAllowNumbers options \<and> test NUMBERS_ONLY_REGEX word then True
      else if hasObviousNonEnglishIndicators (uni E) word then False
      else if word \<in> englishDictionary E then True
      else if 39 \<in> set word \<and> hd (split 39 word) \<in> englishDictionary E then True
      else False)"

definition showBool :: "bool \<Rightarrow> jsstring" where
  "showBool b = (if b then ascii ''true'' else ascii ''false'')"

definition cacheKey :: "jsstring \<Rightarrow> WordOptions \<Rightarrow> jsstring" where
  "cacheKey word options =
     word @ ascii ''_'' @ showBool (woAllowNumbers options) @ ascii ''_'' @
     showBool (woAllowAbbreviations options)"

definition isEnglishWordCached :: "env \<Rightarrow> caches \<Rightarrow> jsstring \<Rightarrow> WordOptions \<Rightarrow> bool \<times> caches" where
  "isEnglishWordCached E st word options =
     (let key = cacheKey word options in
      if mapHas (wordCache st) key then
        (case mapGet (wordCache st) key of Some v \<Rightarrow> (v, st) | None \<Rightarrow> (False, st))
      else
        (let result = isEnglishWord E word options in
         (result, st\<lparr>wordCache := cacheSet (wordCache st) WORD_CACHE_LIMIT key result\<rparr>)))"

section \<open>Text preprocessing\<close>

text \<open>
  Every syntax character of an exclude-word is escaped before the pattern is compiled, so the
  pattern is the word as literal text between two word boundaries, with flags \<open>g\<close> and \<open>i\<close>.
\<close>

definition excludePattern :: "unicode \<Rightarrow> jsstring \<Rightarrow> regex" where
  "excludePattern U word = seqs [WordB, litI U word, WordB]"

text \<open>One turn of the loop over the custom patterns: the text and the store.\<close>

definition applyPattern :: "ref \<Rightarrow> jsstring \<times> store \<Rightarrow> jsstring \<times> store" where
  "applyPattern pattern acc =
     (case acc of (processed, h) \<Rightarrow>
        (case regExpReplace (h pattern) processed of
           (processed', R') \<Rightarrow> (processed', h(pattern := R'))))"

definition preprocessText ::
  "env \<Rightarrow> store \<Rightarrow> jsstring \<Rightarrow> ref list option \<Rightarrow> jsstring list option \<Rightarrow> jsstring \<times> store" where
  "preprocessText E h text cps ews =
     (let processed = removeDocumentPatterns text;
          processed = removeGeographicalTerms E processed;
          (processed, h') = (case cps of None \<Rightarrow> (processed, h)
                             | Some ps \<Rightarrow> fold applyPattern ps (processed, h));
          processed = (case ews of None \<Rightarrow> processed
                       | Some ws \<Rightarrow>
                           fold (\<lambda>word acc. replaceAll (excludePattern (uni E) word) [] acc)
                                ws processed);
          processed = replaceAllCP (nonLetter (uni E)) (ascii '' '') processed
      in (normalizeWhitespace processed, h'))"

section \<open>Public API\<close>

text \<open>
  The exported functions take the caches of the module and the store of the caller's patterns
  and return them as the call leaves them.  One turn of the loop over the words: the two
  counters and the caches.
\<close>

definition countWord ::
  "env \<Rightarrow> real \<Rightarrow> bool \<Rightarrow> bool \<Rightarrow> jsstring \<Rightarrow> nat \<times> nat \<times> caches \<Rightarrow> nat \<times> nat \<times> caches" where
  "countWord E minLen allowNum allowAbbr word acc =
     (case acc of (englishWordCount, totalRelevantWords, st) \<Rightarrow>
        (let cleanWord = trim (replaceAll WORD_PUNCTUATION_REGEX [] word) in
         if real (length cleanWord) < minLen then acc
         else if allowAbbr \<and> test ABBREVIATION_REGEX cleanWord
         then (englishWordCount + 1, totalRelevantWords + 1, st)
         else
           (case isEnglishWordCached E st (toLowerCase (uni E) cleanWord)
                   \<lparr>woAllowNumbers = allowNum, woAllowAbbreviations = allowAbbr\<rparr> of
              (True, st') \<Rightarrow> (englishWordCount + 1, totalRelevantWords + 1, st')
            | (False, st') \<Rightarrow> (englishWordCount, totalRelevantWords + 1, st'))))"

definition englishRatioOf :: "nat \<Rightarrow> nat \<Rightarrow> real" where
  "englishRatioOf englishWordCount totalRelevantWords =
     (if totalRelevantWords > 0 then real englishWordCount / real totalRelevantWords else 1)"

definition detectNonEnglishText ::
  "env \<Rightarrow> caches \<Rightarrow> store \<Rightarrow> jsvalue \<Rightarrow> DetectionOptions \<Rightarrow> (error + bool) \<times> caches \<times> store" where
  "detectNonEnglishText E st h inputText options =
     (let minLen = (case minWordLength options of None \<Rightarrow> 2 | Some n \<Rightarrow> n);
          allowNum = (case allowNumbers options of None \<Rightarrow> True | Some b \<Rightarrow> b);
          allowAbbr = (case allowAbbreviations options of None \<Rightarrow> True | Some b \<Rightarrow> b);
          threshold = (case englishThreshold options of None \<Rightarrow> 8 / 10 | Some t \<Rightarrow> t)
      in case inputText of
           JSString text \<Rightarrow>
             if \<not> isNonEmptyString inputText \<or> length (trim text) = 0 then (Inr False, st, h)
             else
               (let francInputText = text;
                    (processedText, h') = preprocessText E h text (customPatterns options)
                                            (excludeWords options);
                    words = split 32 processedText
                in if length words = 0 then (Inr False, st, h')
                   else
                     (let threshold = (if length words \<le> 4 then 6 / 10 else threshold) in
                      case fold (countWord E minLen allowNum allowAbbr) words (0, 0, st) of
                        (englishWordCount, totalRelevantWords, st') \<Rightarrow>
                          (let englishRatio = englishRatioOf englishWordCount totalRelevantWords
                           in if englishRatio \<ge> threshold then (Inr False, st', h')
                              else
                                (case francLanguageAnalysis E st' francInputText of
                                   (Inl e, st'') \<Rightarrow> (Inl e, st'', h')
                                 | (Inr res, st'') \<Rightarrow>
                                     if language res = ascii ''eng'' \<and> confidence res \<ge> 9 / 10
                                        \<and> englishRatio \<ge> 7 / 10
                                     then (Inr False, st'', h')
                                     else (Inr True, st'', h')))))
         | _ \<Rightarrow> (Inr False, st, h))"

definition isEnglish ::
  "env \<Rightarrow> caches \<Rightarrow> store \<Rightarrow> jsvalue \<Rightarrow> DetectionOptions \<Rightarrow> (error + bool) \<times> caches \<times> store" where
  "isEnglish E st h inputText options =
     (case detectNonEnglishText E st h inputText options of
        (Inl e, st') \<Rightarrow> (Inl e, st')
      | (Inr b, st') \<Rightarrow> (Inr (\<not> b), st'))"

definition clearLanguageDetectorCaches :: "caches \<Rightarrow> caches" where
  "clearLanguageDetectorCaches st = st\<lparr>francCache := [], wordCache := []\<rparr>"

section \<open>Notions used in the statements\<close>

text \<open>
  The inputs the decision function answers without looking at them: every value that is not a
  string, the empty string, and a string of white space only.
\<close>

definition blankInput :: "jsvalue \<Rightarrow> bool" where
  "blankInput v = (case v of JSString s \<Rightarrow> list_all isWhiteSpace s | _ \<Rightarrow> True)"

text \<open>The options a call leaves out: \<open>options = {}\<close>.\<close>

definition defaultOptions :: DetectionOptions where
  "defaultOptions =
     \<lparr>englishThreshold = None, minWordLength = None, allowNumbers = None,
      allowAbbreviations = None, customPatterns = None, excludeWords = None\<rparr>"

text \<open>
  The cache states the module can be in: it starts with two empty maps, and only the exported
  functions touch them.
\<close>

inductive reachable :: "env \<Rightarrow> caches \<Rightarrow> bool" for E :: env where
  reach_init: "reachable E emptyCaches"
| reach_detect:
    "reachable E st \<Longrightarrow> reachable E (fst (snd (detectNonEnglishText E st h v options)))"
| reach_isEnglish:
    "reachable E st \<Longrightarrow> reachable E (fst (snd (isEnglish E st h v options)))"
| reach_clear: "reachable E st \<Longrightarrow> reachable E (clearLanguageDetectorCaches st)"

text \<open>
  The quantities of one call of \<open>detectNonEnglishText\<close>, computed without the caches: the
  tokens, the two counters of the loop, the english ratio, and the threshold the ratio is
  compared against.
\<close>

definition tokens :: "env \<Rightarrow> store \<Rightarrow> jsstring \<Rightarrow> DetectionOptions \<Rightarrow> jsstring list" where
  "tokens E h text options =
     split 32 (fst (preprocessText E h text (customPatterns options) (excludeWords options)))"

definition optMinLen :: "DetectionOptions \<Rightarrow> real" where
  "optMinLen options = (case minWordLength options of None \<Rightarrow> 2 | Some n \<Rightarrow> n)"

definition optAllowNum :: "DetectionOptions \<Rightarrow> bool" where
  "optAllowNum options = (case allowNumbers options of None \<Rightarrow> True | Some b \<Rightarrow> b)"

definition optAllowAbbr :: "DetectionOptions \<Rightarrow> bool" where
  "optAllowAbbr options = (case allowAbbreviations options of None \<Rightarrow> True | Some b \<Rightarrow> b)"

definition countWordPure ::
  "env \<Rightarrow> real \<Rightarrow> bool \<Rightarrow> bool \<Rightarrow> jsstring \<Rightarrow> nat \<times> nat \<Rightarrow> nat \<times> nat" where
  "countWordPure E minLen allowNum allowAbbr word acc =
     (let cleanWord = trim (replaceAll WORD_PUNCTUATION_REGEX [] word) in
      if real (length cleanWord) < minLen then acc
      else if (allowAbbr \<and> test ABBREVIATION_REGEX cleanWord) \<or>
              isEnglishWord E (toLowerCase (uni E) cleanWord)
                \<lparr>woAllowNumbers = allowNum, woAllowAbbreviations = allowAbbr\<rparr>
      then (fst acc + 1, snd acc + 1)
      else (fst acc, snd acc + 1))"

definition wordCounts :: "env \<Rightarrow> store \<Rightarrow> jsstring \<Rightarrow> DetectionOptions \<Rightarrow> nat \<times> nat" where
  "wordCounts E h text options =
     fold (countWordPure E (optMinLen options) (optAllowNum options) (optAllowAbbr options))
          (tokens E h text options) (0, 0)"

definition englishRatio :: "env \<Rightarrow> store \<Rightarrow> jsstring \<Rightarrow> DetectionOptions \<Rightarrow> real" where
  "englishRatio E h text options =
     englishRatioOf (fst (wordCounts E h text options)) (snd (wordCounts E h text options))"

definition effectiveThreshold :: "env \<Rightarrow> store \<Rightarrow> jsstring \<Rightarrow> DetectionOptions \<Rightarrow> real" where
  "effectiveThreshold E h text options =
     (if length (tokens E h text options) \<le> 4 then 6 / 10
      else (case englishThreshold options of None \<Rightarrow> 8 / 10 | Some t \<Rightarrow> t))"

text \<open>What \<open>francLanguageAnalysis\<close> computes from a ranking when the cache has no entry.\<close>

definition francPure :: "(jsstring \<times> real) list \<Rightarrow> (jsstring \<times> real) option" where
  "francPure ranking =
     (case scanTop (take 5 ranking) of
        Some x \<Rightarrow> Some x
      | None \<Rightarrow> (case ranking of [] \<Rightarrow> None | d0 # _ \<Rightarrow> Some d0))"

definition francAnswer :: "env \<Rightarrow> jsstring \<Rightarrow> error + LanguageResult" where
  "francAnswer E t =
     (case francPure (francAll E t) of
        None \<Rightarrow> Inl TypeError
      | Some d \<Rightarrow> Inr \<lparr>language = fst d, confidence = snd d\<rparr>)"

text \<open>The last step of the decision: the answer from the analyser's result and the ratio.\<close>

definition rescue :: "real \<Rightarrow> error + LanguageResult \<Rightarrow> error + bool" where
  "rescue ratio r =
     (case r of
        Inl e \<Rightarrow> Inl e
      | Inr res \<Rightarrow>
          Inr (\<not> (language res = ascii ''eng'' \<and> confidence res \<ge> 9 / 10 \<and> ratio \<ge> 7 / 10)))"

text \<open>
  The whole decision without the caches, and the store of the caller's patterns as a call
  leaves it.
\<close>

definition detectPure :: "env \<Rightarrow> store \<Rightarrow> jsvalue \<Rightarrow> DetectionOptions \<Rightarrow> error + bool" where
  "detectPure E h v options =
     (case v of
        JSString text \<Rightarrow>
          if blankInput v then Inr False
          else if englishRatio E h text options \<ge> effectiveThreshold E h text options
          then Inr False
          else rescue (englishRatio E h text options) (francAnswer E text)
      | _ \<Rightarrow> Inr False)"

definition storeAfter :: "env \<Rightarrow> store \<Rightarrow> jsvalue \<Rightarrow> DetectionOptions \<Rightarrow> store" where
  "storeAfter E h v options =
     (case v of
        JSString text \<Rightarrow>
          if blankInput v then h
          else snd (preprocessText E h text (customPatterns options) (excludeWords options))
      | _ \<Rightarrow> h)"

text \<open>
  What a call can see of a \<open>RegExp\<close> object: its matcher and flags, and \<open>lastIndex\<close> if
  the pattern is sticky and not global, the one case in which a search starts there without
  \<open>replace\<close> having set it.  Two stores agree for an options record if they agree in that
  on every custom pattern of the record.
\<close>

definition stickyOnly :: "RegExp \<Rightarrow> bool" where
  "stickyOnly R \<longleftrightarrow> rxSticky R \<and> \<not> rxGlobal R"

definition visibleState ::
  "RegExp \<Rightarrow> (jsstring \<Rightarrow> nat \<Rightarrow> nat option) \<times> bool \<times> bool \<times> bool \<times> nat" where
  "visibleState R =
     (rxMatcher R, rxGlobal R, rxSticky R, rxFullUnicode R,
      if stickyOnly R then lastIndex R else 0)"

definition patternRefs :: "DetectionOptions \<Rightarrow> ref list" where
  "patternRefs options = (case customPatterns options of None \<Rightarrow> [] | Some ps \<Rightarrow> ps)"

definition samePatternState :: "DetectionOptions \<Rightarrow> store \<Rightarrow> store \<Rightarrow> bool" where
  "samePatternState options h h' \<longleftrightarrow>
     (\<forall>p\<in>set (patternRefs options). visibleState (h p) = visibleState (h' p))"

definition noStickyOnly :: "DetectionOptions \<Rightarrow> store \<Rightarrow> bool" where
  "noStickyOnly options h \<longleftrightarrow> (\<forall>p\<in>set (patternRefs options). \<not> stickyOnly (h p))"

text \<open>
  The invariant of the two caches: an entry holds what the cached function computes for its
  key, no key occurs twice, and neither map is over its limit.
\<close>

definition wordCacheOk :: "env \<Rightarrow> (jsstring, bool) jsmap \<Rightarrow> bool" where
  "wordCacheOk E m \<longleftrightarrow>
     (\<forall>word options v. (cacheKey word options, v) \<in> set m \<longrightarrow> v = isEnglishWord E word options)"

definition francCacheOk :: "env \<Rightarrow> (jsstring, jsstring \<times> real) jsmap \<Rightarrow> bool" where
  "francCacheOk E m \<longleftrightarrow> (\<forall>text d. (text, d) \<in> set m \<longrightarrow> francPure (francAll E text) = Some d)"

definition cachesOk :: "env \<Rightarrow> caches \<Rightarrow> bool" where
  "cachesOk E st \<longleftrightarrow>
     wordCacheOk E (wordCache st) \<and> francCacheOk E (francCache st) \<and>
     distinct (map fst (wordCache st)) \<and> distinct (map fst (francCache st)) \<and>
     mapSize (wordCache st) \<le> WORD_CACHE_LIMIT \<and> mapSize (francCache st) \<le> FRANC_CACHE_LIMIT"

text \<open>
  The policy of the Trigram Fallback Analyzer in the words of the specification, to compare
  \<open>francLanguageAnalysis\<close> with: among the top 5 candidates the first one that is English
  with confidence at least 0.9, otherwise the top-ranked candidate.
\<close>

definition trigramPolicy :: "(jsstring \<times> real) list \<Rightarrow> jsstring \<times> real" where
  "trigramPolicy ranking =
     (case find (\<lambda>d. fst d = ascii ''eng'' \<and> snd d \<ge> 9 / 10) (take 5 ranking) of
        Some d \<Rightarrow> d
      | None \<Rightarrow> hd ranking)"

text \<open>
  A small instance of the external data, for concrete runs: Unicode tables that know no
  letter and no case pair outside ASCII, an engine whose patterns outside the fragment parsed
  above match nothing (the sample data builds none), a dictionary of a few words, one
  geographical term, and an identifier that never commits to a language.
\<close>

definition asciiTables :: unicode where
  "asciiTables = \<lparr>letterCP = (\<lambda>_. False), upperCU = (\<lambda>c. c), lowerStr = (\<lambda>s. s)\<rparr>"

definition sampleEnv :: env where
  "sampleEnv =
     \<lparr>uni = asciiTables,
      engineMatcher = (\<lambda>source flags S i. None),
      englishDictionary = set (map ascii [''the'', ''theater'', ''is'', ''great'', ''and'']),
      wordsToRemove = [(ascii ''India'', True)],
      francAll = (\<lambda>_. [(ascii ''und'', 1)])\<rparr>"

text \<open>The same data with an identifier that returns an empty ranking.\<close>

definition silentEnv :: env where
  "silentEnv = sampleEnv\<lparr>francAll := (\<lambda>_. [])\<rparr>"

text \<open>The same data with an identifier whose third candidate is English with confidence 0.95.\<close>

definition rankedEnv :: env where
  "rankedEnv =
     sampleEnv\<lparr>francAll :=
       (\<lambda>_. [(ascii ''fra'', 1), (ascii ''deu'', 97 / 100), (ascii ''eng'', 95 / 100)])\<rparr>"

text \<open>
  The same data with an identifier that takes one particular cleaned text for English and
  every other text for undetermined.
\<close>

definition probeEnv :: env where
  "probeEnv =
     sampleEnv\<lparr>francAll :=
       (\<lambda>t. if t = ascii ''is is is is qq'' then [(ascii ''eng'', 1)] else [(ascii ''und'', 1)])\<rparr>"

text \<open>The sample data with Unicode tables in which the code point U+00E9 is a letter.\<close>

definition accentEnv :: env where
  "accentEnv = sampleEnv\<lparr>uni := asciiTables\<lparr>letterCP := (\<lambda>cp. cp = 0xE9)\<rparr>\<rparr>"

text \<open>
  The sample data with other lists of geographical terms: three terms, and a term together
  with its plural.
\<close>

definition threeTermEnv :: env where
  "threeTermEnv =
     sampleEnv\<lparr>wordsToRemove :=
       [(ascii ''Peru'', True), (ascii ''India'', True), (ascii ''Chile'', True)]\<rparr>"

definition pluralEnv :: env where
  "pluralEnv = sampleEnv\<lparr>wordsToRemove := [(ascii ''India'', True), (ascii ''Indias'', True)]\<rparr>"

text \<open>
  Stores for concrete runs: every reference denotes the pattern \<^verbatim>\<open>/qq/\<close>, with flag
  \<open>y\<close> in the first store and with flag \<open>g\<close> in the second, and \<open>lastIndex\<close> 0.
\<close>

definition qqPattern :: regex where
  "qqPattern = seqs [Chr (\<lambda>x. x = 113), Chr (\<lambda>x. x = 113)]"

definition stickyStore :: store where
  "stickyStore =
     (\<lambda>p. \<lparr>rxMatcher = regexMatcher qqPattern, rxGlobal = False, rxSticky = True,
            rxFullUnicode = False, lastIndex = 0\<rparr>)"

definition globalStore :: store where
  "globalStore =
     (\<lambda>p. \<lparr>rxMatcher = regexMatcher qqPattern, rxGlobal = True, rxSticky = False,
            rxFullUnicode = False, lastIndex = 0\<rparr>)"

text \<open>The options with one custom pattern, the object at reference 0.\<close>

definition patternOptions :: DetectionOptions where
  "patternOptions = defaultOptions\<lparr>customPatterns := Some [0]\<rparr>"

text \<open>
  The words of a text: its maximal runs of characters that are no white space.
\<close>

fun splitBy :: "('a \<Rightarrow> bool) \<Rightarrow> 'a list \<Rightarrow> 'a list list" where
  "splitBy P [] = [[]]"
| "splitBy P (x # xs) =
     (if P x then [] # splitBy P xs
      else (case splitBy P xs of [] \<Rightarrow> [[x]] | w # ws \<Rightarrow> (x # w) # ws))"

definition wsWords :: "jsstring \<Rightarrow> jsstring list" where
  "wsWords s = filter (\<lambda>w. w \<noteq> []) (splitBy isWhiteSpace s)"

text \<open>
  What the pattern of a geographical term does to a text: the text without the leftmost
  match, if there is one.  A pattern matches nowhere in a text if the matcher fails at every
  index.
\<close>

definition matchesAt :: "RegExp \<Rightarrow> jsstring \<Rightarrow> nat \<Rightarrow> nat \<Rightarrow> bool" where
  "matchesAt R S i n \<longleftrightarrow> i \<le> length S \<and> rxMatcher R S i = Some n"

definition firstMatch :: "RegExp \<Rightarrow> jsstring \<Rightarrow> nat \<Rightarrow> nat \<Rightarrow> bool" where
  "firstMatch R S i n \<longleftrightarrow> matchesAt R S i n \<and> (\<forall>j<i. rxMatcher R S j = None)"

definition matchesNowhere :: "RegExp \<Rightarrow> jsstring \<Rightarrow> bool" where
  "matchesNowhere R S \<longleftrightarrow> (\<forall>j\<le>length S. rxMatcher R S j = None)"

text \<open>
  A segment of a text, \<open>m\<close> code units from index \<open>a\<close> on, followed through a loop that
  replaces with one pattern after the other: a match that ends before the segment moves the
  segment to the left by the length of the match, a match that starts after it leaves it
  where it is, and the result is the index of the segment after the loop.  There is no result
  if the match of some pattern is neither before nor after the segment.
\<close>

fun trackSegment :: "RegExp list \<Rightarrow> jsstring \<Rightarrow> nat \<Rightarrow> nat \<Rightarrow> nat option" where
  "trackSegment [] T a m = Some a"
| "trackSegment (R # ps) T a m =
     (case fst (regExpBuiltinExec R T) of
        None \<Rightarrow> trackSegment ps T a m
      | Some (i, matched) \<Rightarrow>
          if i + length matched \<le> a
          then trackSegment ps (fst (regExpReplace R T)) (a - length matched) m
          else if a + m \<le> i then trackSegment ps (fst (regExpReplace R T)) a m
          else None)"

text \<open>One text occurs in another.\<close>

definition occursIn :: "jsstring \<Rightarrow> jsstring \<Rightarrow> bool" where
  "occursIn u s \<longleftrightarrow> (\<exists>pre post. s = pre @ u @ post)"

section \<open>The bounded caches\<close>

lemma dropWhile_all: "\<forall>x\<in>set s. P x \<Longrightarrow> dropWhile P s = []"
  by (induction s) auto

lemma trim_blank: "list_all isWhiteSpace s \<Longrightarrow> trim s = []"
  unfolding trim_def by (simp only: list_all_iff dropWhile_all rev.simps dropWhile.simps)

lemma detect_blank:
  "blankInput v \<Longrightarrow> detectNonEnglishText E st h v options = (Inr False, st, h)"
  by (cases v) (simp_all add: detectNonEnglishText_def blankInput_def trim_blank Let_def)


(* cache lemmas *)
lemma length_mapSet: "length (mapSet m k v) = (if mapHas m k then length m else Suc (length m))"
  by (induction m) (force simp: mapHas_def)+

lemma keys_mapSet: "map fst (mapSet m k v) = (if mapHas m k then map fst m else map fst m @ [k])"
  by (induction m) (force simp: mapHas_def)+

lemma set_mapSet: "set (mapSet m k v) \<subseteq> insert (k, v) (set m)"
  by (induction m) (auto split: if_splits)

lemma mapSet_mem: "(k, v) \<in> set (mapSet m k v)"
  by (induction m) auto

lemma mapDelete_Cons: "distinct (map fst (e # es)) \<Longrightarrow> mapDelete (e # es) (fst e) = es"
proof -
  assume "distinct (map fst (e # es))"
  then have "\<forall>x\<in>set es. fst x \<noteq> fst e" by (auto simp: image_iff)
  then have "filter (\<lambda>x. fst x \<noteq> fst e) es = es" by (simp add: filter_id_conv)
  then show ?thesis by (simp add: mapDelete_def)
qed

lemma cacheSet_evict:
  "distinct (map fst cache) \<Longrightarrow> cache \<noteq> [] \<Longrightarrow> limit \<le> mapSize cache \<Longrightarrow>
     cacheSet cache limit k v = mapSet (tl cache) k v"
  by (cases cache) (simp_all add: cacheSet_def mapFirstKey_def mapDelete_Cons mapSize_def del: distinct.simps)

lemma cacheSet_below:
  "mapSize cache < limit \<Longrightarrow> cacheSet cache limit k v = mapSet cache k v"
  by (simp add: cacheSet_def)

lemma cacheSet_distinct:
  "distinct (map fst cache) \<Longrightarrow> distinct (map fst (cacheSet cache limit k v))"
proof -
  assume d: "distinct (map fst cache)"
  have a: "\<And>m. distinct (map fst m) \<Longrightarrow> distinct (map fst (mapSet m k v))"
    by (auto simp: keys_mapSet mapHas_def)
  have b: "\<And>x. distinct (map fst (mapDelete cache x))"
    using d by (simp add: mapDelete_def distinct_map_filter)
  show ?thesis using d a b
    by (auto simp: cacheSet_def Let_def split: option.splits)
qed

lemma cacheSet_size:
  "distinct (map fst cache) \<Longrightarrow> 0 < limit \<Longrightarrow> mapSize cache \<le> limit \<Longrightarrow>
     mapSize (cacheSet cache limit k v) \<le> limit"
proof (cases "limit \<le> mapSize cache")
  case True
  assume d: "distinct (map fst cache)" and l: "0 < limit" and s: "mapSize cache \<le> limit"
  from True l have ne: "cache \<noteq> []" by (auto simp: mapSize_def)
  have "length (mapSet (tl cache) k v) \<le> Suc (length (tl cache))"
    by (simp add: length_mapSet)
  with ne s show ?thesis
    by (simp add: cacheSet_evict[OF d ne True] mapSize_def)
next
  case False
  then show ?thesis
    by (simp add: cacheSet_below mapSize_def length_mapSet)
qed

lemma cacheSet_set: "set (cacheSet cache limit k v) \<subseteq> insert (k, v) (set cache)"
proof -
  have "\<And>x. set (mapSet (mapDelete cache x) k v) \<subseteq> insert (k, v) (set cache)"
    using set_mapSet[of "mapDelete cache _" k v] by (auto simp: mapDelete_def)
  then show ?thesis using set_mapSet[of cache k v]
    by (auto simp: cacheSet_def Let_def split: option.splits)
qed


lemma mapHas_get: "mapHas m k \<Longrightarrow> \<exists>v. mapGet m k = Some v \<and> (k, v) \<in> set m"
  by (induction m) (auto simp: mapHas_def mapGet_def)

section \<open>The caches are consistent in every reachable state\<close>

lemma keySuffix_inj:
  "rev (ascii ''_'' @ showBool a @ ascii ''_'' @ showBool b) @ x =
   rev (ascii ''_'' @ showBool a' @ ascii ''_'' @ showBool b') @ x' \<Longrightarrow>
     x = x' \<and> a = a' \<and> b = b'"
  by (cases a; cases b; cases a'; cases b') (simp_all add: showBool_def ascii_def)

lemma cacheKey_inj:
  "cacheKey w options = cacheKey w' options' \<Longrightarrow> w = w' \<and> options = options'"
proof -
  assume "cacheKey w options = cacheKey w' options'"
  then have "rev (cacheKey w options) = rev (cacheKey w' options')" by (rule arg_cong)
  then have "rev (ascii ''_'' @ showBool (woAllowNumbers options) @ ascii ''_'' @
                  showBool (woAllowAbbreviations options)) @ rev w =
             rev (ascii ''_'' @ showBool (woAllowNumbers options') @ ascii ''_'' @
                  showBool (woAllowAbbreviations options')) @ rev w'"
    by (simp only: cacheKey_def rev_append append_assoc)
  from keySuffix_inj[OF this] show ?thesis by simp
qed

lemma wordCacheOk_cacheSet:
  "wordCacheOk E m \<Longrightarrow>
     wordCacheOk E (cacheSet m limit (cacheKey w options) (isEnglishWord E w options))"
  unfolding wordCacheOk_def
proof (intro allI impI)
  fix word opts v
  assume ok: "\<forall>word options v. (cacheKey word options, v) \<in> set m \<longrightarrow> v = isEnglishWord E word options"
    and mem: "(cacheKey word opts, v)
                \<in> set (cacheSet m limit (cacheKey w options) (isEnglishWord E w options))"
  from mem cacheSet_set[of m limit "cacheKey w options" "isEnglishWord E w options"]
  have "(cacheKey word opts, v) = (cacheKey w options, isEnglishWord E w options)
          \<or> (cacheKey word opts, v) \<in> set m" by auto
  then show "v = isEnglishWord E word opts"
  proof
    assume "(cacheKey word opts, v) = (cacheKey w options, isEnglishWord E w options)"
    then show ?thesis using cacheKey_inj[of word opts w options] by simp
  next
    assume "(cacheKey word opts, v) \<in> set m"
    with ok show ?thesis by blast
  qed
qed

lemma francCacheOk_cacheSet:
  "francCacheOk E m \<Longrightarrow> francPure (francAll E t) = Some d \<Longrightarrow>
     francCacheOk E (cacheSet m limit t d)"
  unfolding francCacheOk_def using cacheSet_set[of m limit t d] by blast

lemma isEnglishWordCached_hit:
  "mapGet (wordCache st) (cacheKey w options) = Some v \<Longrightarrow> mapHas (wordCache st) (cacheKey w options) \<Longrightarrow>
     isEnglishWordCached E st w options = (v, st)"
  by (simp add: isEnglishWordCached_def)

lemma isEnglishWordCached_miss:
  "\<not> mapHas (wordCache st) (cacheKey w options) \<Longrightarrow>
     isEnglishWordCached E st w options =
       (isEnglishWord E w options,
        st\<lparr>wordCache := cacheSet (wordCache st) WORD_CACHE_LIMIT (cacheKey w options)
                            (isEnglishWord E w options)\<rparr>)"
  by (simp add: isEnglishWordCached_def Let_def)

lemma wordCacheOkD:
  "wordCacheOk E m \<Longrightarrow> (cacheKey w options, v) \<in> set m \<Longrightarrow> v = isEnglishWord E w options"
  by (simp add: wordCacheOk_def)

lemma isEnglishWordCached_ok:
  assumes "cachesOk E st"
  shows "fst (isEnglishWordCached E st w options) = isEnglishWord E w options"
    and "cachesOk E (snd (isEnglishWordCached E st w options))"
proof -
  let ?k = "cacheKey w options"
  have "fst (isEnglishWordCached E st w options) = isEnglishWord E w options \<and>
        cachesOk E (snd (isEnglishWordCached E st w options))"
  proof (cases "mapHas (wordCache st) ?k")
    case True
    from mapHas_get[OF True]
    obtain v where v: "mapGet (wordCache st) ?k = Some v" "(?k, v) \<in> set (wordCache st)"
      by (elim exE conjE)
    from assms have "wordCacheOk E (wordCache st)" by (simp add: cachesOk_def)
    from wordCacheOkD[OF this v(2)] have "v = isEnglishWord E w options" .
    with assms show ?thesis
      by (simp only: isEnglishWordCached_hit[OF v(1) True] fst_conv snd_conv)
  next
    case False
    let ?st = "st\<lparr>wordCache := cacheSet (wordCache st) WORD_CACHE_LIMIT ?k (isEnglishWord E w options)\<rparr>"
    from assms have a: "wordCacheOk E (wordCache st)" "francCacheOk E (francCache st)"
      "distinct (map fst (wordCache st))" "distinct (map fst (francCache st))"
      "mapSize (wordCache st) \<le> WORD_CACHE_LIMIT" "mapSize (francCache st) \<le> FRANC_CACHE_LIMIT"
      by (simp_all add: cachesOk_def)
    have pos: "0 < WORD_CACHE_LIMIT" by (simp add: WORD_CACHE_LIMIT_def)
    have "cachesOk E ?st"
      unfolding cachesOk_def
    proof (intro conjI)
      show "wordCacheOk E (wordCache ?st)" using wordCacheOk_cacheSet[OF a(1)] by simp
      show "francCacheOk E (francCache ?st)" using a(2) by simp
      show "distinct (map fst (wordCache ?st))" using cacheSet_distinct[OF a(3)] by simp
      show "distinct (map fst (francCache ?st))" using a(4) by simp
      show "mapSize (wordCache ?st) \<le> WORD_CACHE_LIMIT"
        using cacheSet_size[OF a(3) pos a(5)] by simp
      show "mapSize (francCache ?st) \<le> FRANC_CACHE_LIMIT" using a(6) by simp
    qed
    then show ?thesis
      by (simp only: isEnglishWordCached_miss[OF False] fst_conv snd_conv simp_thms)
  qed
  then show "fst (isEnglishWordCached E st w options) = isEnglishWord E w options"
    and "cachesOk E (snd (isEnglishWordCached E st w options))" by simp_all
qed

lemma countWord_ok:
  assumes "cachesOk E st"
  shows "\<exists>st'. countWord E ml an ab w (e, t, st) =
           (fst (countWordPure E ml an ab w (e, t)), snd (countWordPure E ml an ab w (e, t)), st')
           \<and> cachesOk E st'"
proof -
  let ?cw = "trim (replaceAll WORD_PUNCTUATION_REGEX [] w)"
  let ?o = "\<lparr>woAllowNumbers = an, woAllowAbbreviations = ab\<rparr>"
  obtain b st' where r: "isEnglishWordCached E st (toLowerCase (uni E) ?cw) ?o = (b, st')"
    by (cases "isEnglishWordCached E st (toLowerCase (uni E) ?cw) ?o")
  have b: "b = isEnglishWord E (toLowerCase (uni E) ?cw) ?o"
    using isEnglishWordCached_ok(1)[OF assms, of "toLowerCase (uni E) ?cw" ?o] r by simp
  have ok: "cachesOk E st'"
    using isEnglishWordCached_ok(2)[OF assms, of "toLowerCase (uni E) ?cw" ?o] r by simp
  show ?thesis
  proof (cases "real (length ?cw) < ml")
    case True
    with assms show ?thesis by (simp add: countWord_def countWordPure_def Let_def)
  next
    case False
    note long = this
    show ?thesis
    proof (cases "ab \<and> test ABBREVIATION_REGEX ?cw")
      case True
      with long assms show ?thesis by (simp add: countWord_def countWordPure_def Let_def)
    next
      case False
      with long ok b r assms show ?thesis
        by (cases b) (simp_all add: countWord_def countWordPure_def Let_def)
    qed
  qed
qed

lemma fold_countWord_ok:
  "cachesOk E st \<Longrightarrow>
     \<exists>st'. fold (countWord E ml an ab) ws (e, t, st) =
             (fst (fold (countWordPure E ml an ab) ws (e, t)),
              snd (fold (countWordPure E ml an ab) ws (e, t)), st')
           \<and> cachesOk E st'"
proof (induction ws arbitrary: e t st)
  case Nil
  then show ?case by simp
next
  case (Cons w ws)
  let ?p = "countWordPure E ml an ab w (e, t)"
  obtain st1 where step: "countWord E ml an ab w (e, t, st) = (fst ?p, snd ?p, st1)"
    and ok: "cachesOk E st1"
    using countWord_ok[OF Cons.prems] by blast
  show ?case using Cons.IH[OF ok, of "fst ?p" "snd ?p"] by (simp add: step)
qed

section \<open>The decision function computes what the cache-free computation computes\<close>

lemma francCacheOkD:
  "francCacheOk E m \<Longrightarrow> (t, d) \<in> set m \<Longrightarrow> francPure (francAll E t) = Some d"
  unfolding francCacheOk_def by (erule allE[of _ t], erule allE[of _ d]) simp

lemma francLanguageAnalysis_hit:
  "mapHas (francCache st) t \<Longrightarrow> mapGet (francCache st) t = Some d \<Longrightarrow>
     francLanguageAnalysis E st t = (Inr \<lparr>language = fst d, confidence = snd d\<rparr>, st)"
  by (cases d) (simp add: francLanguageAnalysis_def)

lemma francLanguageAnalysis_miss:
  "\<not> mapHas (francCache st) t \<Longrightarrow>
     francLanguageAnalysis E st t =
       (case francPure (francAll E t) of
          None \<Rightarrow> (Inl TypeError, st)
        | Some d \<Rightarrow>
            (Inr \<lparr>language = fst d, confidence = snd d\<rparr>,
             st\<lparr>francCache := cacheSet (francCache st) FRANC_CACHE_LIMIT t d\<rparr>))"
  by (auto simp: francLanguageAnalysis_def francPure_def Let_def split: option.splits list.splits)

lemma francLanguageAnalysis_ok:
  assumes "cachesOk E st"
  shows "fst (francLanguageAnalysis E st t) = francAnswer E t \<and>
         cachesOk E (snd (francLanguageAnalysis E st t))"
proof (cases "mapHas (francCache st) t")
  case True
  from mapHas_get[OF True]
  obtain d where d: "mapGet (francCache st) t = Some d" "(t, d) \<in> set (francCache st)"
    by (elim exE conjE)
  from assms have "francCacheOk E (francCache st)" by (simp add: cachesOk_def)
  from francCacheOkD[OF this d(2)] have "francPure (francAll E t) = Some d" .
  with assms show ?thesis
    by (simp add: francLanguageAnalysis_hit[OF True d(1)] francAnswer_def)
next
  case False
  note miss = francLanguageAnalysis_miss[OF False, of E]
  show ?thesis
  proof (cases "francPure (francAll E t)")
    case None
    with assms show ?thesis by (simp add: miss francAnswer_def)
  next
    case (Some d)
    let ?st = "st\<lparr>francCache := cacheSet (francCache st) FRANC_CACHE_LIMIT t d\<rparr>"
    from assms have a: "wordCacheOk E (wordCache st)" "francCacheOk E (francCache st)"
      "distinct (map fst (wordCache st))" "distinct (map fst (francCache st))"
      "mapSize (wordCache st) \<le> WORD_CACHE_LIMIT" "mapSize (francCache st) \<le> FRANC_CACHE_LIMIT"
      by (simp_all add: cachesOk_def)
    have pos: "0 < FRANC_CACHE_LIMIT" by (simp add: FRANC_CACHE_LIMIT_def)
    have "cachesOk E ?st"
      unfolding cachesOk_def
    proof (intro conjI)
      show "wordCacheOk E (wordCache ?st)" using a(1) by simp
      show "francCacheOk E (francCache ?st)" using francCacheOk_cacheSet[OF a(2) Some] by simp
      show "distinct (map fst (wordCache ?st))" using a(3) by simp
      show "distinct (map fst (francCache ?st))" using cacheSet_distinct[OF a(4)] by simp
      show "mapSize (wordCache ?st) \<le> WORD_CACHE_LIMIT" using a(5) by simp
      show "mapSize (francCache ?st) \<le> FRANC_CACHE_LIMIT"
        using cacheSet_size[OF a(4) pos a(6)] by simp
    qed
    with Some show ?thesis by (simp add: miss francAnswer_def)
  qed
qed

lemma split_nonempty: "split sep s \<noteq> []"
  by (induction s) (auto split: list.splits)

lemma trim_empty_iff: "trim s = [] \<longleftrightarrow> list_all isWhiteSpace s"
proof
  assume "list_all isWhiteSpace s"
  then show "trim s = []" by (rule trim_blank)
next
  assume "trim s = []"
  then have "dropWhile isWhiteSpace (rev (dropWhile isWhiteSpace s)) = []"
    by (simp only: trim_def rev_is_Nil_conv)
  then have a: "\<forall>x\<in>set (dropWhile isWhiteSpace s). isWhiteSpace x"
    by (simp only: dropWhile_eq_Nil_conv set_rev)
  have "dropWhile isWhiteSpace s = []"
  proof (cases "dropWhile isWhiteSpace s")
    case Nil then show ?thesis .
  next
    case (Cons x xs)
    then have "\<not> isWhiteSpace x" using hd_dropWhile[of isWhiteSpace s] by simp
    moreover from Cons a have "isWhiteSpace x" by simp
    ultimately show ?thesis by simp
  qed
  then show "list_all isWhiteSpace s"
    by (simp only: dropWhile_eq_Nil_conv list_all_iff)
qed

lemma detect_string:
  assumes nb: "\<not> blankInput (JSString text)"
    and f: "fold (countWord E (optMinLen options) (optAllowNum options) (optAllowAbbr options))
              (tokens E h text options) (0, 0, st) = (e, t, st')"
  shows "detectNonEnglishText E st h (JSString text) options =
           (if englishRatioOf e t \<ge> effectiveThreshold E h text options
            then (Inr False, st', storeAfter E h (JSString text) options)
            else (rescue (englishRatioOf e t) (fst (francLanguageAnalysis E st' text)),
                  snd (francLanguageAnalysis E st' text),
                  storeAfter E h (JSString text) options))"
proof -
  from nb have t: "trim text \<noteq> []" "text \<noteq> []"
    by (auto simp: blankInput_def trim_empty_iff)
  obtain pt h' where pp: "preprocessText E h text (customPatterns options) (excludeWords options)
                            = (pt, h')"
    by (cases "preprocessText E h text (customPatterns options) (excludeWords options)")
  have ne: "split 32 pt \<noteq> []"
    by (rule split_nonempty)
  obtain r st'' where fr: "francLanguageAnalysis E st' text = (r, st'')"
    by (cases "francLanguageAnalysis E st' text")
  from f have f': "fold (countWord E (case minWordLength options of None \<Rightarrow> 2 | Some n \<Rightarrow> n)
                           (case allowNumbers options of None \<Rightarrow> True | Some b \<Rightarrow> b)
                           (case allowAbbreviations options of None \<Rightarrow> True | Some b \<Rightarrow> b))
              (split 32 pt) (0, 0, st) = (e, t, st')"
    by (simp add: optMinLen_def optAllowNum_def optAllowAbbr_def tokens_def pp)
  have sa: "storeAfter E h (JSString text) options = h'"
    using nb by (simp add: storeAfter_def pp)
  show ?thesis
    unfolding detectNonEnglishText_def Let_def
    using t ne
    by (cases r)
       (simp_all add: pp f' fr sa isNonEmptyString_def effectiveThreshold_def tokens_def
          rescue_def)
qed

lemma detect_ok:
  assumes "cachesOk E st"
  shows "fst (detectNonEnglishText E st h v options) = detectPure E h v options \<and>
         cachesOk E (fst (snd (detectNonEnglishText E st h v options))) \<and>
         snd (snd (detectNonEnglishText E st h v options)) = storeAfter E h v options"
proof (cases "blankInput v")
  case True
  with assms show ?thesis
    by (cases v) (simp_all add: detect_blank detectPure_def storeAfter_def)
next
  case False
  then obtain s where v: "v = JSString s" by (cases v) (simp_all add: blankInput_def)
  from fold_countWord_ok[OF assms, of "optMinLen options" "optAllowNum options"
      "optAllowAbbr options" "tokens E h s options" 0 0]
  obtain st' where f: "fold (countWord E (optMinLen options) (optAllowNum options) (optAllowAbbr options))
              (tokens E h s options) (0, 0, st) =
            (fst (wordCounts E h s options), snd (wordCounts E h s options), st')"
    and ok: "cachesOk E st'"
    unfolding wordCounts_def by (elim exE conjE)
  note d = detect_string[OF False[unfolded v] f]
  from francLanguageAnalysis_ok[OF ok, of s]
  have fr: "fst (francLanguageAnalysis E st' s) = francAnswer E s"
    "cachesOk E (snd (francLanguageAnalysis E st' s))" by simp_all
  show ?thesis
    unfolding v d using False ok fr
    by (simp add: detectPure_def v englishRatio_def francAnswer_def)
qed

lemma isEnglish_snd:
  "snd (isEnglish E st h v options) = snd (detectNonEnglishText E st h v options)"
  by (simp add: isEnglish_def split: prod.splits sum.splits)

lemma reachable_ok: "reachable E st \<Longrightarrow> cachesOk E st"
proof (induction rule: reachable.induct)
  case reach_init
  show ?case
    by (simp add: cachesOk_def emptyCaches_def wordCacheOk_def francCacheOk_def mapSize_def)
next
  case (reach_detect st h v options)
  then show ?case using detect_ok by blast
next
  case (reach_isEnglish st h v options)
  then show ?case using detect_ok by (simp add: isEnglish_snd)
next
  case (reach_clear st)
  then show ?case
    by (simp add: cachesOk_def clearLanguageDetectorCaches_def wordCacheOk_def francCacheOk_def
          mapSize_def)
qed

lemma detect_reachable:
  "reachable E st \<Longrightarrow> fst (detectNonEnglishText E st h v options) = detectPure E h v options"
  using detect_ok[OF reachable_ok] by blast

lemma detect_store:
  "reachable E st \<Longrightarrow>
     snd (snd (detectNonEnglishText E st h v options)) = storeAfter E h v options"
  using detect_ok[OF reachable_ok] by blast


section \<open>Searching and replacing with a RegExp object\<close>

lemma searchFrom_Some:
  "searchFrom m sticky fu S start = Some (i, e) \<Longrightarrow>
     start \<le> i \<and> i \<le> length S \<and> m S i = Some (e - i) \<and> i \<le> e"
proof (induction m sticky fu S start rule: searchFrom.induct)
  case (1 m sticky fu S start)
  from "1.prems" have le: "start \<le> length S"
    by (simp add: searchFrom.simps[of m sticky fu S start] split: if_splits)
  show ?case
  proof (cases "m S start")
    case (Some n)
    with "1.prems" le show ?thesis
      by (auto simp: searchFrom.simps[of m sticky fu S start])
  next
    case None
    with "1.prems" le have ns: "\<not> sticky"
      and rec: "searchFrom m sticky fu S (advanceStringIndex S start fu) = Some (i, e)"
      by (simp_all add: searchFrom.simps[of m sticky fu S start] split: if_splits)
    have "start \<le> advanceStringIndex S start fu"
      by (simp add: advanceStringIndex_def)
    with "1.IH"[OF _ None ns rec] le show ?thesis by simp
  qed
qed

lemma searchFrom_plain:
  "searchFrom m False False S start =
     (if start > length S then None
      else (case m S start of
              Some n \<Rightarrow> Some (start, start + n)
            | None \<Rightarrow> searchFrom m False False S (Suc start)))"
  by (subst searchFrom.simps) (simp add: advanceStringIndex_def split: option.splits)

lemma searchFrom_leftmost:
  "searchFrom m False False S start = Some (i, e) \<Longrightarrow> start \<le> j \<Longrightarrow> j < i \<Longrightarrow> m S j = None"
proof (induction "length S + 1 - start" arbitrary: start)
  case 0
  then have "length S < start" by simp
  with "0.prems"(1) show ?case by (simp add: searchFrom_plain[of m S start])
next
  case (Suc k)
  show ?case
  proof (cases "m S start")
    case (Some n)
    with Suc.prems show ?thesis
      by (simp add: searchFrom_plain[of m S start] split: if_splits)
  next
    case None
    with Suc.prems(1)
    have rec: "searchFrom m False False S (Suc start) = Some (i, e)"
      by (simp add: searchFrom_plain[of m S start] split: if_splits)
    show ?thesis
    proof (cases "j = start")
      case True
      with None show ?thesis by simp
    next
      case False
      with Suc.prems(2) have "Suc start \<le> j" by simp
      with Suc.hyps(1)[of "Suc start"] Suc.hyps(2) rec Suc.prems(3) show ?thesis by simp
    qed
  qed
qed

lemma searchFrom_None:
  "searchFrom m False False S start = None \<Longrightarrow> start \<le> j \<Longrightarrow> j \<le> length S \<Longrightarrow> m S j = None"
proof (induction "length S + 1 - start" arbitrary: start)
  case 0
  then show ?case by simp
next
  case (Suc k)
  from Suc.prems have le: "start \<le> length S" by simp
  show ?case
  proof (cases "m S start")
    case (Some n)
    with Suc.prems(1) le show ?thesis
      by (simp add: searchFrom_plain[of m S start])
  next
    case None
    with Suc.prems(1) le
    have rec: "searchFrom m False False S (Suc start) = None"
      by (simp add: searchFrom_plain[of m S start])
    show ?thesis
    proof (cases "j = start")
      case True
      with None show ?thesis by simp
    next
      case False
      with Suc.prems(2) have "Suc start \<le> j" by simp
      with Suc.hyps(1)[of "Suc start"] Suc.hyps(2) rec Suc.prems(3) show ?thesis by simp
    qed
  qed
qed

lemma searchFrom_first:
  "start \<le> i \<Longrightarrow> i \<le> length S \<Longrightarrow> m S i = Some n \<Longrightarrow>
     (\<And>j. start \<le> j \<Longrightarrow> j < i \<Longrightarrow> m S j = None) \<Longrightarrow>
     searchFrom m False False S start = Some (i, i + n)"
proof (induction "i - start" arbitrary: start)
  case 0
  then have "start = i" by simp
  with 0 show ?case by (simp add: searchFrom_plain[of m S i])
next
  case (Suc k)
  then have lt: "start < i" by simp
  with Suc.prems(4) have none: "m S start = None" by simp
  have "searchFrom m False False S (Suc start) = Some (i, i + n)"
    using Suc.hyps(1)[of "Suc start"] Suc.hyps(2) Suc.prems lt by simp
  with none lt Suc.prems(2) show ?case
    by (simp add: searchFrom_plain[of m S start])
qed

lemma searchFrom_nowhere:
  "(\<And>j. start \<le> j \<Longrightarrow> j \<le> length S \<Longrightarrow> m S j = None) \<Longrightarrow>
     searchFrom m False False S start = None"
proof (induction "length S + 1 - start" arbitrary: start)
  case 0
  then have "length S < start" by simp
  then show ?case by (simp add: searchFrom_plain[of m S start])
next
  case (Suc k)
  then have le: "start \<le> length S" by simp
  with Suc.prems have none: "m S start = None" by simp
  have "searchFrom m False False S (Suc start) = None"
    using Suc.hyps(1)[of "Suc start"] Suc.hyps(2) Suc.prems by simp
  with none le show ?case
    by (simp add: searchFrom_plain[of m S start])
qed

text \<open>A pattern with neither flag \<open>g\<close> nor flag \<open>y\<close>.\<close>

lemma regExpReplace_plain:
  assumes "\<not> rxGlobal R" and "\<not> rxSticky R"
  shows "regExpReplace R S =
           (case searchFrom (rxMatcher R) False (rxFullUnicode R) S 0 of
              None \<Rightarrow> S
            | Some (i, e) \<Rightarrow> take i S @ drop e S, R)"
proof (cases "searchFrom (rxMatcher R) False (rxFullUnicode R) S 0")
  case None
  with assms show ?thesis by (simp add: regExpReplace_def regExpBuiltinExec_def)
next
  case (Some x)
  obtain i e where x: "x = (i, e)" by (cases x)
  from searchFrom_Some[OF Some[unfolded x]] have b: "i \<le> length S" "i \<le> e" by simp_all
  have "drop (i + min (length S - i) (e - i)) S = drop e S"
  proof (cases "e \<le> length S")
    case True
    with b have "i + min (length S - i) (e - i) = e" by arith
    then show ?thesis by simp
  next
    case False
    with b have "i + min (length S - i) (e - i) = length S" by arith
    with False show ?thesis by simp
  qed
  with assms Some x show ?thesis by (simp add: regExpReplace_def regExpBuiltinExec_def)
qed

lemma geoPattern_flags:
  "\<not> rxGlobal (geoPattern E w)" "\<not> rxSticky (geoPattern E w)" "\<not> rxFullUnicode (geoPattern E w)"
  by (simp_all add: geoPattern_def newRegExp_def ascii_def)

lemma geo_replace_first:
  "firstMatch (geoPattern E w) S i n \<Longrightarrow>
     regExpReplace (geoPattern E w) S = (take i S @ drop (i + n) S, geoPattern E w)"
proof -
  assume "firstMatch (geoPattern E w) S i n"
  then have "searchFrom (rxMatcher (geoPattern E w)) False False S 0 = Some (i, i + n)"
    unfolding firstMatch_def matchesAt_def by (intro searchFrom_first) simp_all
  then show ?thesis
    using geoPattern_flags[of E w] by (simp add: regExpReplace_plain)
qed

lemma geo_replace_nowhere:
  "matchesNowhere (geoPattern E w) S \<Longrightarrow> regExpReplace (geoPattern E w) S = (S, geoPattern E w)"
proof -
  assume "matchesNowhere (geoPattern E w) S"
  then have "searchFrom (rxMatcher (geoPattern E w)) False False S 0 = None"
    unfolding matchesNowhere_def by (intro searchFrom_nowhere) simp
  then show ?thesis
    using geoPattern_flags[of E w] by (simp add: regExpReplace_plain)
qed

lemma geo_first_or_nowhere:
  "matchesNowhere (geoPattern E w) S \<or> (\<exists>i n. firstMatch (geoPattern E w) S i n)"
proof (cases "searchFrom (rxMatcher (geoPattern E w)) False False S 0")
  case None
  have "rxMatcher (geoPattern E w) S j = None" if "j \<le> length S" for j
    using searchFrom_None[OF None _ that] by simp
  then show ?thesis by (simp add: matchesNowhere_def)
next
  case (Some x)
  obtain i e where x: "x = (i, e)" by (cases x)
  have "rxMatcher (geoPattern E w) S j = None" if "j < i" for j
    using searchFrom_leftmost[OF Some[unfolded x] _ that] by simp
  with searchFrom_Some[OF Some[unfolded x]]
  have "firstMatch (geoPattern E w) S i (e - i)"
    by (simp add: firstMatch_def matchesAt_def)
  then show ?thesis by blast
qed


section \<open>What a call sees of the caller's patterns\<close>

lemma stickyOnly_visible: "visibleState R = visibleState R' \<Longrightarrow> stickyOnly R = stickyOnly R'"
  by (simp add: visibleState_def stickyOnly_def)

lemma regExpReplace_visible:
  assumes "visibleState R = visibleState R'"
  shows "fst (regExpReplace R S) = fst (regExpReplace R' S) \<and>
         visibleState (snd (regExpReplace R S)) = visibleState (snd (regExpReplace R' S))"
proof -
  from assms have m: "rxMatcher R' = rxMatcher R" and g: "rxGlobal R' = rxGlobal R"
    and y: "rxSticky R' = rxSticky R" and u: "rxFullUnicode R' = rxFullUnicode R"
    and l: "stickyOnly R \<Longrightarrow> lastIndex R' = lastIndex R"
    by (simp_all add: visibleState_def stickyOnly_def split: if_splits)
  show ?thesis
  proof (cases "rxGlobal R")
    case True
    then show ?thesis
      by (simp add: regExpReplace_def m g y u visibleState_def stickyOnly_def)
  next
    case False
    note ng = this
    show ?thesis
    proof (cases "rxSticky R")
      case True
      with ng l have "lastIndex R' = lastIndex R" by (simp add: stickyOnly_def)
      with ng True show ?thesis
        by (simp add: regExpReplace_def regExpBuiltinExec_def m g y u visibleState_def
              stickyOnly_def split: option.splits prod.splits)
    next
      case False
      with ng show ?thesis
        by (simp add: regExpReplace_def regExpBuiltinExec_def m g y u visibleState_def
              stickyOnly_def split: option.splits prod.splits)
    qed
  qed
qed

lemma regExpReplace_keeps:
  "\<not> stickyOnly R \<Longrightarrow> visibleState (snd (regExpReplace R S)) = visibleState R"
  by (auto simp: regExpReplace_def regExpBuiltinExec_def visibleState_def stickyOnly_def
      split: option.splits prod.splits)

lemma applyPattern_eq:
  "applyPattern p (s, h) = (fst (regExpReplace (h p) s), h(p := snd (regExpReplace (h p) s)))"
  by (simp add: applyPattern_def split: prod.splits)

lemma fold_applyPattern_same:
  "\<forall>p\<in>Q. visibleState (h p) = visibleState (h' p) \<Longrightarrow> set ps \<subseteq> Q \<Longrightarrow>
     fst (fold applyPattern ps (s, h)) = fst (fold applyPattern ps (s, h')) \<and>
     (\<forall>p\<in>Q. visibleState (snd (fold applyPattern ps (s, h)) p)
               = visibleState (snd (fold applyPattern ps (s, h')) p))"
proof (induction ps arbitrary: s h h')
  case Nil
  then show ?case by simp
next
  case (Cons p ps)
  from Cons.prems have pv: "visibleState (h p) = visibleState (h' p)" by simp
  note r = regExpReplace_visible[OF pv, of s]
  define s1 where "s1 = fst (regExpReplace (h p) s)"
  define h1 where "h1 = h(p := snd (regExpReplace (h p) s))"
  define h1' where "h1' = h'(p := snd (regExpReplace (h' p) s))"
  have q: "\<forall>p\<in>Q. visibleState (h1 p) = visibleState (h1' p)"
    using Cons.prems(1) r by (simp add: h1_def h1'_def)
  from Cons.prems(2) have sub: "set ps \<subseteq> Q" by simp
  have a: "applyPattern p (s, h) = (s1, h1)"
    by (simp only: applyPattern_eq s1_def h1_def)
  have b: "applyPattern p (s, h') = (s1, h1')"
    using r by (simp only: applyPattern_eq s1_def h1'_def)
  show ?case
    unfolding fold_Cons comp_apply a b by (rule Cons.IH[OF q sub])
qed

lemma fold_applyPattern_keeps:
  "\<forall>p\<in>set ps. \<not> stickyOnly (h p) \<Longrightarrow>
     visibleState (snd (fold applyPattern ps (s, h)) q) = visibleState (h q)"
proof (induction ps arbitrary: s h)
  case Nil
  show ?case by simp
next
  case (Cons p ps)
  from Cons.prems have np: "\<not> stickyOnly (h p)" by simp
  note k = regExpReplace_keeps[OF np, of s]
  define s1 where "s1 = fst (regExpReplace (h p) s)"
  define h1 where "h1 = h(p := snd (regExpReplace (h p) s))"
  have v: "visibleState (h1 x) = visibleState (h x)" for x using k by (simp add: h1_def)
  have "\<forall>p\<in>set ps. \<not> stickyOnly (h1 p)"
    using Cons.prems stickyOnly_visible[OF v] by simp
  from Cons.IH[OF this, of s1]
  have i: "visibleState (snd (fold applyPattern ps (s1, h1)) q) = visibleState (h1 q)" .
  have a: "applyPattern p (s, h) = (s1, h1)"
    by (simp only: applyPattern_eq s1_def h1_def)
  show ?case
    unfolding fold_Cons comp_apply a i by (rule v)
qed

lemma preprocessText_eq:
  "preprocessText E h t cps ews =
     (normalizeWhitespace
        (replaceAllCP (nonLetter (uni E)) (ascii '' '')
           (case ews of
              None \<Rightarrow> fst (case cps of None \<Rightarrow> (removeGeographicalTerms E (removeDocumentPatterns t), h)
                          | Some ps \<Rightarrow> fold applyPattern ps
                                         (removeGeographicalTerms E (removeDocumentPatterns t), h))
            | Some ws \<Rightarrow>
                fold (\<lambda>word acc. replaceAll (excludePattern (uni E) word) [] acc) ws
                  (fst (case cps of None \<Rightarrow> (removeGeographicalTerms E (removeDocumentPatterns t), h)
                        | Some ps \<Rightarrow> fold applyPattern ps
                                       (removeGeographicalTerms E (removeDocumentPatterns t), h))))),
      snd (case cps of None \<Rightarrow> (removeGeographicalTerms E (removeDocumentPatterns t), h)
           | Some ps \<Rightarrow> fold applyPattern ps
                          (removeGeographicalTerms E (removeDocumentPatterns t), h)))"
  unfolding preprocessText_def Let_def
  by (cases cps; cases ews) (simp_all add: split_beta)

lemma preprocessText_same:
  assumes "samePatternState options h h'"
  shows "fst (preprocessText E h t (customPatterns options) ews)
           = fst (preprocessText E h' t (customPatterns options) ews) \<and>
         samePatternState options (snd (preprocessText E h t (customPatterns options) ews))
           (snd (preprocessText E h' t (customPatterns options) ews))"
proof (cases "customPatterns options")
  case None
  with assms show ?thesis by (cases ews) (simp_all add: preprocessText_eq)
next
  case (Some ps)
  from assms Some have "\<forall>p\<in>set ps. visibleState (h p) = visibleState (h' p)"
    by (simp add: samePatternState_def patternRefs_def)
  from fold_applyPattern_same[OF this subset_refl,
      of "removeGeographicalTerms E (removeDocumentPatterns t)"]
  show ?thesis
    by (cases ews) (simp_all add: preprocessText_eq Some samePatternState_def patternRefs_def)
qed

lemma preprocessText_keeps:
  assumes "noStickyOnly options h"
  shows "samePatternState options'
           h (snd (preprocessText E h t (customPatterns options) ews))"
proof (cases "customPatterns options")
  case None
  then show ?thesis by (simp add: preprocessText_eq samePatternState_def)
next
  case (Some ps)
  from assms Some have "\<forall>p\<in>set ps. \<not> stickyOnly (h p)"
    by (simp add: noStickyOnly_def patternRefs_def)
  from fold_applyPattern_keeps[OF this]
  show ?thesis by (simp add: preprocessText_eq Some samePatternState_def)
qed

lemma tokens_same:
  "samePatternState options h h' \<Longrightarrow> tokens E h t options = tokens E h' t options"
  using preprocessText_same[of options h h' E t "excludeWords options"]
  by (simp add: tokens_def)

lemma detectPure_same:
  assumes "samePatternState options h h'"
  shows "detectPure E h v options = detectPure E h' v options"
proof -
  have t: "tokens E h t options = tokens E h' t options" for t
    using assms by (rule tokens_same)
  then have "wordCounts E h t options = wordCounts E h' t options" for t
    by (simp add: wordCounts_def)
  then have "englishRatio E h t options = englishRatio E h' t options" for t
    by (simp add: englishRatio_def)
  moreover have "effectiveThreshold E h t options = effectiveThreshold E h' t options" for t
    by (simp add: effectiveThreshold_def t)
  ultimately show ?thesis by (cases v) (simp_all add: detectPure_def)
qed

lemma storeAfter_same:
  "samePatternState options h h' \<Longrightarrow>
     samePatternState options (storeAfter E h v options) (storeAfter E h' v options)"
  using preprocessText_same[of options h h' E _ "excludeWords options"]
  by (cases v) (simp_all add: storeAfter_def)

lemma storeAfter_keeps:
  "noStickyOnly options h \<Longrightarrow> samePatternState options h (storeAfter E h v options)"
  using preprocessText_keeps[of options h options E _ "excludeWords options"]
  by (cases v) (simp_all add: storeAfter_def samePatternState_def)


section \<open>Concrete runs\<close>

lemmas char_defs = ascii_def isWhiteSpace_def isUpperAZ_def isLowerAZ_def isDigit_def isWordChar_def
  canonicalize_def isLetter_def toLowerCase_def trim_def wordBefore_def wordAfter_def
  isHighSurrogate_def isLowSurrogate_def codePoint_def isWordPunctuation_def nonLetter_def
  englishChar_def isSyntaxCharacter_def isLineTerminator_def

lemmas regex_defs = test_def replaceAll_def classI_def hyphen_def
  DOCUMENT_PATTERNS_REMOVE_def NON_ENGLISH_CHARS_def NON_ENGLISH_CHARS_REGEX_def
  NON_ENGLISH_ENDINGS_def NON_ENGLISH_FUNCTION_WORDS_def NON_ENGLISH_WORDS_1_def
  NON_ENGLISH_WORDS_2_def NON_ENGLISH_WORDS_3_def NON_ENGLISH_WORDS_4_def NON_ENGLISH_WORDS_5_def
  NON_ENGLISH_WORDS_6_def NON_ENGLISH_WORDS_7_def NON_ENGLISH_WORDS_8_def
  NON_ENGLISH_ENDINGS_REGEX_def anchoredWords_def NON_ENGLISH_FUNCTION_WORDS_REGEX_def
  NON_ENGLISH_WORD_PATTERNS_def WORD_PUNCTUATION_REGEX_def
  WHITESPACE_REGEX_def ENGLISH_CHARS_REGEX_def NUMBERS_ONLY_REGEX_def ABBREVIATION_REGEX_def
  excludePattern_def

lemmas regexp_defs = geoPattern_def GEO_TERM_PATTERNS_def newRegExp_def parsePattern_def
  patternChar_def addTerm_def regExpReplace_def regExpBuiltinExec_def regexMatcher_def
  prevUnit_def searchFrom.simps globalMatches.simps advanceStringIndex_def applyPattern_def

lemmas text_defs = isNonEmptyString_def normalizeWhitespace_def removeDocumentPatterns_def
  removeGeographicalTerms_def hasNonEnglishCharacters_def hasNonEnglishEndings_def
  hasNonEnglishWordPatterns_def hasObviousNonEnglishIndicators_def hasOnlyEnglishCharacters_def
  isEnglishWord_def preprocessText_def tokens_def

lemmas sample_defs = sampleEnv_def asciiTables_def defaultOptions_def

lemma uni_sampleEnv: "uni sampleEnv = asciiTables"
  by (simp add: sampleEnv_def)

lemma word_is:
  "isEnglishWord sampleEnv [105, 115] \<lparr>woAllowNumbers = True, woAllowAbbreviations = True\<rparr>"
  by (simp add: char_defs regex_defs text_defs sample_defs)

lemma word_qq:
  "\<not> isEnglishWord sampleEnv [113, 113] \<lparr>woAllowNumbers = True, woAllowAbbreviations = True\<rparr>"
  by (simp add: char_defs regex_defs text_defs sample_defs)

lemmas count_defs = wordCounts_def countWordPure_def optMinLen_def optAllowNum_def optAllowAbbr_def
  defaultOptions_def uni_sampleEnv asciiTables_def word_is word_qq char_defs
  test_def replaceAll_def WORD_PUNCTUATION_REGEX_def ABBREVIATION_REGEX_def

lemma tokens_is_qq:
  "tokens sampleEnv h (ascii ''is qq'') defaultOptions = [[105, 115], [113, 113]]"
  by (simp add: char_defs regex_defs regexp_defs text_defs sample_defs)

lemma counts_is_qq: "wordCounts sampleEnv h (ascii ''is qq'') defaultOptions = (1, 2)"
  using tokens_is_qq by (simp add: count_defs)

lemma tokens_is_qq1:
  "tokens sampleEnv h (ascii ''is is is is qq1'') defaultOptions =
     [[105, 115], [105, 115], [105, 115], [105, 115], [113, 113]]"
  by (simp add: char_defs regex_defs regexp_defs text_defs sample_defs)

lemma counts_is_qq1: "wordCounts sampleEnv h (ascii ''is is is is qq1'') defaultOptions = (4, 5)"
  using tokens_is_qq1 by (simp add: count_defs)

lemma scanTop_find:
  "scanTop xs = find (\<lambda>d. fst d = ascii ''eng'' \<and> snd d \<ge> 9 / 10) xs"
  by (induction xs) auto

lemma francPure_policy: "r \<noteq> [] \<Longrightarrow> francPure r = Some (trigramPolicy r)"
  by (cases r) (auto simp: francPure_def trigramPolicy_def scanTop_find split: option.splits)

lemma env_francAll:
  "uni (E\<lparr>francAll := f\<rparr>) = uni E"
  "engineMatcher (E\<lparr>francAll := f\<rparr>) = engineMatcher E"
  "wordsToRemove (E\<lparr>francAll := f\<rparr>) = wordsToRemove E"
  "englishDictionary (E\<lparr>francAll := f\<rparr>) = englishDictionary E"
  by simp_all

lemma isEnglishWord_francAll [simp]:
  "isEnglishWord (E\<lparr>francAll := f\<rparr>) w wo = isEnglishWord E w wo"
  unfolding isEnglishWord_def env_francAll ..

lemma tokens_francAll [simp]: "tokens (E\<lparr>francAll := f\<rparr>) h t options = tokens E h t options"
  unfolding tokens_def preprocessText_def removeGeographicalTerms_def GEO_TERM_PATTERNS_def
    geoPattern_def newRegExp_def env_francAll ..

lemma wordCounts_francAll [simp]:
  "wordCounts (E\<lparr>francAll := f\<rparr>) h t options = wordCounts E h t options"
proof -
  have "\<And>ml an ab. countWordPure (E\<lparr>francAll := f\<rparr>) ml an ab = countWordPure E ml an ab"
    unfolding countWordPure_def env_francAll isEnglishWord_francAll ..
  then show ?thesis by (simp add: wordCounts_def)
qed

lemma englishRatio_francAll [simp]:
  "englishRatio (E\<lparr>francAll := f\<rparr>) h t options = englishRatio E h t options"
  by (simp add: englishRatio_def)

lemma effectiveThreshold_francAll [simp]:
  "effectiveThreshold (E\<lparr>francAll := f\<rparr>) h t options = effectiveThreshold E h t options"
  by (simp add: effectiveThreshold_def)

lemma tokens_threshold [simp]:
  "tokens E h t (options\<lparr>englishThreshold := x\<rparr>) = tokens E h t options"
  by (simp add: tokens_def)

lemma wordCounts_threshold [simp]:
  "wordCounts E h t (options\<lparr>englishThreshold := x\<rparr>) = wordCounts E h t options"
  by (simp add: wordCounts_def optMinLen_def optAllowNum_def optAllowAbbr_def)

lemma englishRatio_threshold [simp]:
  "englishRatio E h t (options\<lparr>englishThreshold := x\<rparr>) = englishRatio E h t options"
  by (simp add: englishRatio_def)

lemma effectiveThreshold_short:
  "length (tokens E h t options) \<le> 4 \<Longrightarrow> effectiveThreshold E h t options = 6 / 10"
  by (simp add: effectiveThreshold_def)

lemma rescue_low: "ratio < 7 / 10 \<Longrightarrow> rescue ratio r \<noteq> Inr False"
  by (cases r) (simp_all add: rescue_def)

lemma detectPure_string:
  "\<not> blankInput (JSString t) \<Longrightarrow>
     detectPure E h (JSString t) options =
       (if englishRatio E h t options \<ge> effectiveThreshold E h t options then Inr False
        else rescue (englishRatio E h t options) (francAnswer E t))"
  by (simp add: detectPure_def)

lemma francAnswer_reachable:
  "reachable E st \<Longrightarrow> fst (francLanguageAnalysis E st t) = francAnswer E t"
  using francLanguageAnalysis_ok[OF reachable_ok] by blast

text \<open>
  When the ratio is below the effective threshold, the answer comes from the ratio and from
  the analysis of the text the caller passed, before any preprocessing.
\<close>

lemma detect_consults_raw_text:
  "reachable E st \<Longrightarrow> reachable E st' \<Longrightarrow> \<not> blankInput (JSString s) \<Longrightarrow>
     englishRatio E h s options < effectiveThreshold E h s options \<Longrightarrow>
     fst (detectNonEnglishText E st h (JSString s) options)
       = rescue (englishRatio E h s options) (fst (francLanguageAnalysis E st' s))"
  by (simp add: detect_reachable francAnswer_reachable detectPure_string)

section \<open>Concrete facts about the sample data\<close>

lemma nb_is_qq: "\<not> blankInput (JSString (ascii ''is qq''))"
  by (simp add: blankInput_def ascii_def isWhiteSpace_def)

lemma nb_is_qq1: "\<not> blankInput (JSString (ascii ''is is is is qq1''))"
  by (simp add: blankInput_def ascii_def isWhiteSpace_def)

lemma ratio_is_qq: "englishRatio sampleEnv h (ascii ''is qq'') defaultOptions = 1 / 2"
  by (simp add: englishRatio_def counts_is_qq englishRatioOf_def)

lemma eff_is_qq: "effectiveThreshold sampleEnv h (ascii ''is qq'') defaultOptions = 6 / 10"
  by (simp add: effectiveThreshold_def tokens_is_qq)

lemma ratio_is_qq1: "englishRatio sampleEnv h (ascii ''is is is is qq1'') defaultOptions = 4 / 5"
  by (simp add: englishRatio_def counts_is_qq1 englishRatioOf_def)

lemma eff_is_qq1:
  "effectiveThreshold sampleEnv h (ascii ''is is is is qq1'')
     (defaultOptions\<lparr>englishThreshold := Some x\<rparr>) = x"
  by (simp add: effectiveThreshold_def tokens_is_qq1)

lemma francAnswer_sample:
  "francAnswer sampleEnv t = Inr \<lparr>language = ascii ''und'', confidence = 1\<rparr>"
  by (simp add: francAnswer_def francPure_def sampleEnv_def ascii_def)

lemma und_not_eng: "ascii ''und'' \<noteq> ascii ''eng''"
  by (simp add: ascii_def)

lemma detect_is_qq1:
  "fst (detectNonEnglishText sampleEnv emptyCaches h (JSString (ascii ''is is is is qq1''))
          (defaultOptions\<lparr>englishThreshold := Some x\<rparr>)) = Inr (4 / 5 < x)"
proof -
  have "detectPure sampleEnv h (JSString (ascii ''is is is is qq1''))
          (defaultOptions\<lparr>englishThreshold := Some x\<rparr>) = Inr (4 / 5 < x)"
    by (simp add: detectPure_string[OF nb_is_qq1] ratio_is_qq1 eff_is_qq1 francAnswer_sample
          rescue_def und_not_eng)
  then show ?thesis by (simp only: detect_reachable[OF reach_init])
qed

lemma isEnglishWordCached_francCache:
  "francCache (snd (isEnglishWordCached E st w wo)) = francCache st"
  by (simp add: isEnglishWordCached_def Let_def split: option.splits)

lemma countWord_francCache:
  "francCache (snd (snd (countWord E ml an ab w (e, t, st)))) = francCache st"
proof -
  obtain b st' where r: "isEnglishWordCached E st
       (toLowerCase (uni E) (trim (replaceAll WORD_PUNCTUATION_REGEX [] w)))
       \<lparr>woAllowNumbers = an, woAllowAbbreviations = ab\<rparr> = (b, st')"
    by (cases "isEnglishWordCached E st
       (toLowerCase (uni E) (trim (replaceAll WORD_PUNCTUATION_REGEX [] w)))
       \<lparr>woAllowNumbers = an, woAllowAbbreviations = ab\<rparr>")
  have "francCache st' = francCache st"
    using isEnglishWordCached_francCache[of E st _ _] r by (metis snd_conv)
  then show ?thesis
    by (cases b) (simp_all add: countWord_def Let_def r)
qed

lemma fold_countWord_francCache:
  "francCache (snd (snd (fold (countWord E ml an ab) ws (e, t, st)))) = francCache st"
proof (induction ws arbitrary: e t st)
  case Nil
  show ?case by simp
next
  case (Cons w ws)
  obtain e1 t1 st1 where s: "countWord E ml an ab w (e, t, st) = (e1, t1, st1)"
    by (cases "countWord E ml an ab w (e, t, st)")
  have "francCache st1 = francCache st"
    using countWord_francCache[of E ml an ab w e t st] by (simp add: s)
  then show ?case using Cons.IH[of e1 t1 st1] by (simp add: s)
qed

lemma detect_francCache_fresh:
  assumes nb: "\<not> blankInput (JSString s)"
    and low: "englishRatio E h s options < effectiveThreshold E h s options"
    and d: "francPure (francAll E s) = Some d"
  shows "francCache (fst (snd (detectNonEnglishText E emptyCaches h (JSString s) options)))
           = [(s, d)]"
proof -
  have ok0: "cachesOk E emptyCaches" by (rule reachable_ok[OF reach_init])
  from fold_countWord_ok[OF ok0, of "optMinLen options" "optAllowNum options"
      "optAllowAbbr options" "tokens E h s options" 0 0]
  obtain st' where f: "fold (countWord E (optMinLen options) (optAllowNum options) (optAllowAbbr options))
              (tokens E h s options) (0, 0, emptyCaches) =
            (fst (wordCounts E h s options), snd (wordCounts E h s options), st')"
    unfolding wordCounts_def by (elim exE conjE)
  have fc: "francCache st' = []"
    using fold_countWord_francCache[of E "optMinLen options" "optAllowNum options"
        "optAllowAbbr options" "tokens E h s options" 0 0 emptyCaches]
    unfolding f by (simp add: emptyCaches_def)
  then have miss: "\<not> mapHas (francCache st') s" by (simp add: mapHas_def)
  have "fst (snd (detectNonEnglishText E emptyCaches h (JSString s) options))
          = snd (francLanguageAnalysis E st' s)"
    using low by (simp add: detect_string[OF nb f] englishRatio_def)
  then show ?thesis
    by (simp add: francLanguageAnalysis_miss[OF miss] d fc cacheSet_def mapSize_def
          FRANC_CACHE_LIMIT_def)
qed


lemma preprocess_is_qq1:
  "preprocessText sampleEnv h (ascii ''is is is is qq1'') None None
     = (ascii ''is is is is qq'', h)"
  by (simp add: char_defs regex_defs regexp_defs text_defs sample_defs)

lemma raw_not_cleaned: "ascii ''is is is is qq1'' \<noteq> ascii ''is is is is qq''"
  by (simp add: ascii_def)

section \<open>White space normalisation keeps the words\<close>

lemma splitBy_nonempty: "splitBy P s \<noteq> []"
  by (induction s) (auto split: list.splits)

lemma wsWords_Nil: "wsWords [] = []"
  by (simp add: wsWords_def)

lemma wsWords_space: "isWhiteSpace x \<Longrightarrow> wsWords (x # xs) = wsWords xs"
  by (simp add: wsWords_def)

lemma wsWords_letter:
  assumes "\<not> isWhiteSpace x"
  shows "wsWords (x # xs) =
           (if xs = [] \<or> isWhiteSpace (hd xs) then [x] # wsWords xs
            else (x # hd (wsWords xs)) # tl (wsWords xs))"
proof (cases xs)
  case Nil
  with assms show ?thesis by (simp add: wsWords_def)
next
  case (Cons y ys)
  show ?thesis
  proof (cases "isWhiteSpace y")
    case True
    with assms Cons show ?thesis by (simp add: wsWords_def)
  next
    case False
    obtain w ws where sp: "splitBy isWhiteSpace ys = w # ws"
      using splitBy_nonempty[of isWhiteSpace ys] by (cases "splitBy isWhiteSpace ys") simp_all
    with assms Cons False show ?thesis by (simp add: wsWords_def)
  qed
qed

lemma wsWords_cong:
  "\<not> isWhiteSpace x \<Longrightarrow> wsWords a = wsWords b \<Longrightarrow>
     (a = [] \<or> isWhiteSpace (hd a)) = (b = [] \<or> isWhiteSpace (hd b)) \<Longrightarrow>
     wsWords (x # a) = wsWords (x # b)"
  by (simp add: wsWords_letter)

lemma wsWords_dropWhile: "wsWords (dropWhile isWhiteSpace s) = wsWords s"
  by (induction s) (simp_all add: wsWords_space)

lemma wsWords_blank: "list_all isWhiteSpace b \<Longrightarrow> wsWords b = []"
  by (induction b) (simp_all add: wsWords_Nil wsWords_space)

lemma wsWords_append_blank: "list_all isWhiteSpace b \<Longrightarrow> wsWords (a @ b) = wsWords a"
proof (induction a)
  case Nil
  then show ?case by (simp add: wsWords_blank wsWords_Nil)
next
  case (Cons x a)
  show ?case
  proof (cases "isWhiteSpace x")
    case True
    with Cons show ?thesis by (simp add: wsWords_space)
  next
    case False
    have h: "(a @ b = [] \<or> isWhiteSpace (hd (a @ b))) = (a = [] \<or> isWhiteSpace (hd a))"
      using Cons.prems by (cases a; cases b) simp_all
    from wsWords_cong[OF False Cons.IH[OF Cons.prems] h] show ?thesis by simp
  qed
qed

lemma wsWords_trim: "wsWords (trim s) = wsWords s"
proof -
  let ?u = "dropWhile isWhiteSpace s"
  have "rev (dropWhile isWhiteSpace (rev ?u)) @ rev (takeWhile isWhiteSpace (rev ?u)) = ?u"
    using takeWhile_dropWhile_id[of isWhiteSpace "rev ?u"]
    by (metis rev_append rev_rev_ident)
  moreover have "list_all isWhiteSpace (rev (takeWhile isWhiteSpace (rev ?u)))"
    by (auto simp: list_all_iff dest: set_takeWhileD)
  ultimately have "wsWords (rev (dropWhile isWhiteSpace (rev ?u))) = wsWords ?u"
    using wsWords_append_blank[of "rev (takeWhile isWhiteSpace (rev ?u))"
        "rev (dropWhile isWhiteSpace (rev ?u))"] by simp
  then show ?thesis by (simp add: trim_def wsWords_dropWhile)
qed

lemma many_zero: "\<exists>p'. many P 0 Some (p, s) = Some (p', dropWhile P s)"
proof (induction s arbitrary: p)
  case Nil
  show ?case by simp
next
  case (Cons x xs)
  from Cons[of "Some x"] obtain p' where "many P 0 Some (Some x, xs) = Some (p', dropWhile P xs)"
    by blast
  then show ?case by simp
qed

lemma many_one:
  "matcher (Many P 1) Some (p, x # xs) = None \<and> \<not> P x \<or>
   (\<exists>p'. matcher (Many P 1) Some (p, x # xs) = Some (p', dropWhile P xs)) \<and> P x"
  using many_zero[of P "Some x" xs] by auto

lemma replaceAll_spaces:
  "wsWords (replaceAllFrom (Many isWhiteSpace 1) [32] p s) = wsWords s \<and>
   (replaceAllFrom (Many isWhiteSpace 1) [32] p s = [] \<or>
    isWhiteSpace (hd (replaceAllFrom (Many isWhiteSpace 1) [32] p s)))
     = (s = [] \<or> isWhiteSpace (hd s))"
proof (induction s arbitrary: p rule: length_induct)
  case (1 s)
  note IH = "1.IH"[rule_format]
  have sp: "isWhiteSpace 32" by (simp add: isWhiteSpace_def)
  show ?case
  proof (cases s)
    case Nil
    then show ?thesis by simp
  next
    case (Cons x xs)
    from many_one[of isWhiteSpace p x xs] show ?thesis
    proof (elim disjE conjE exE)
      assume none: "matcher (Many isWhiteSpace 1) Some (p, x # xs) = None"
        and nx: "\<not> isWhiteSpace x"
      have r: "replaceAllFrom (Many isWhiteSpace 1) [32] p (x # xs)
                 = x # replaceAllFrom (Many isWhiteSpace 1) [32] (Some x) xs"
        by (simp only: replaceAllFrom.simps none option.case)
      from IH[of xs "Some x"] Cons
      have i: "wsWords (replaceAllFrom (Many isWhiteSpace 1) [32] (Some x) xs) = wsWords xs"
        "(replaceAllFrom (Many isWhiteSpace 1) [32] (Some x) xs = [] \<or>
          isWhiteSpace (hd (replaceAllFrom (Many isWhiteSpace 1) [32] (Some x) xs)))
           = (xs = [] \<or> isWhiteSpace (hd xs))" by simp_all
      from wsWords_cong[OF nx i] nx show ?thesis
        unfolding Cons r by (simp del: replaceAllFrom.simps)
    next
      fix p'
      assume m: "matcher (Many isWhiteSpace 1) Some (p, x # xs)
                   = Some (p', dropWhile isWhiteSpace xs)"
        and px: "isWhiteSpace x"
      have less: "length (dropWhile isWhiteSpace xs) < length (x # xs)"
        using length_dropWhile_le[of isWhiteSpace xs] by simp
      then have r: "replaceAllFrom (Many isWhiteSpace 1) [32] p (x # xs)
                 = 32 # replaceAllFrom (Many isWhiteSpace 1) [32] p' (dropWhile isWhiteSpace xs)"
        by (simp only: replaceAllFrom.simps m option.case fst_conv snd_conv if_True
              append_Cons append_Nil)
      from IH[of "dropWhile isWhiteSpace xs" p'] less Cons
      have "wsWords (replaceAllFrom (Many isWhiteSpace 1) [32] p' (dropWhile isWhiteSpace xs))
              = wsWords (dropWhile isWhiteSpace xs)" by simp
      with px sp show ?thesis
        unfolding Cons r by (simp add: wsWords_space wsWords_dropWhile del: replaceAllFrom.simps)
    qed
  qed
qed

lemma wsWords_normalizeWhitespace: "wsWords (normalizeWhitespace s) = wsWords s"
  using replaceAll_spaces[of None s]
  by (simp add: normalizeWhitespace_def wsWords_trim replaceAll_def WHITESPACE_REGEX_def ascii_def)

lemma normalizeWhitespace_Nil: "normalizeWhitespace [] = []"
  by (simp add: normalizeWhitespace_def replaceAll_def WHITESPACE_REGEX_def trim_def)

section \<open>The loop over the patterns of the geographical terms\<close>

lemma firstMatch_search:
  "firstMatch R S i n \<longleftrightarrow> searchFrom (rxMatcher R) False False S 0 = Some (i, i + n)"
proof
  assume "firstMatch R S i n"
  then show "searchFrom (rxMatcher R) False False S 0 = Some (i, i + n)"
    unfolding firstMatch_def matchesAt_def by (intro searchFrom_first) simp_all
next
  assume s: "searchFrom (rxMatcher R) False False S 0 = Some (i, i + n)"
  have "rxMatcher R S j = None" if "j < i" for j
    using searchFrom_leftmost[OF s _ that] by simp
  with searchFrom_Some[OF s] show "firstMatch R S i n"
    by (simp add: firstMatch_def matchesAt_def)
qed

lemma matchesNowhere_search:
  "matchesNowhere R S \<longleftrightarrow> searchFrom (rxMatcher R) False False S 0 = None"
proof
  assume "matchesNowhere R S"
  then show "searchFrom (rxMatcher R) False False S 0 = None"
    unfolding matchesNowhere_def by (intro searchFrom_nowhere) simp
next
  assume s: "searchFrom (rxMatcher R) False False S 0 = None"
  have "rxMatcher R S j = None" if "j \<le> length S" for j
    using searchFrom_None[OF s _ that] by simp
  then show "matchesNowhere R S" by (simp add: matchesNowhere_def)
qed

lemma removeGeographicalTerms_fold:
  "removeGeographicalTerms E S =
     normalizeWhitespace
       (fold (\<lambda>pattern result. fst (regExpReplace pattern result)) (GEO_TERM_PATTERNS E) S)"
proof (cases "S = []")
  case True
  have "fold (\<lambda>pattern result. fst (regExpReplace pattern result)) ps [] = []"
    if "list_all (\<lambda>R. \<not> rxGlobal R \<and> \<not> rxSticky R) ps" for ps
    using that
  proof (induction ps)
    case Nil
    show ?case by simp
  next
    case (Cons R ps)
    then have "fst (regExpReplace R []) = []"
      by (simp add: regExpReplace_plain split: option.splits)
    with Cons show ?case by simp
  qed
  moreover have "list_all (\<lambda>R. \<not> rxGlobal R \<and> \<not> rxSticky R) (GEO_TERM_PATTERNS E)"
    by (simp add: GEO_TERM_PATTERNS_def list_all_iff geoPattern_flags split_beta)
  ultimately show ?thesis
    using True by (simp add: removeGeographicalTerms_def isNonEmptyString_def normalizeWhitespace_Nil)
next
  case False
  then show ?thesis by (simp add: removeGeographicalTerms_def isNonEmptyString_def)
qed


section \<open>Segments that no removed match overlaps\<close>

lemma regExpReplace_exec:
  assumes "\<not> rxGlobal R" and "\<not> rxSticky R"
  shows "fst (regExpReplace R T) =
           (case fst (regExpBuiltinExec R T) of
              None \<Rightarrow> T
            | Some (i, matched) \<Rightarrow> take i T @ drop (i + length matched) T)"
  using assms
  by (simp add: regExpReplace_def split: prod.splits option.splits)

lemma regExpBuiltinExec_index:
  "fst (regExpBuiltinExec R T) = Some (i, matched) \<Longrightarrow> i \<le> length T"
  by (auto simp: regExpBuiltinExec_def Let_def split: option.splits prod.splits
      dest: searchFrom_Some)

lemma segment_after:
  "i \<le> length T \<Longrightarrow> i + l \<le> a \<Longrightarrow>
     drop (a - l) (take i T @ drop (i + l) T) = drop a T"
  by simp

lemma segment_before:
  assumes "i \<le> length T" and "a + m \<le> i"
  shows "take m (drop a (take i T @ drop (i + l) T)) = take m (drop a T)"
proof -
  from assms have a: "a \<le> length (take i T)" and m: "m \<le> i - a" by simp_all
  have "take m (drop a (take i T @ drop (i + l) T))
          = take m (take (i - a) (drop a T) @ drop (i + l) T)"
    using a by (simp add: drop_take)
  also have "\<dots> = take m (take (i - a) (drop a T))"
    using assms by simp
  also have "\<dots> = take m (drop a T)"
    using m by (simp add: min_def)
  finally show ?thesis .
qed

lemma trackSegment_kept:
  "list_all (\<lambda>R. \<not> rxGlobal R \<and> \<not> rxSticky R) ps \<Longrightarrow> trackSegment ps T a m = Some a' \<Longrightarrow>
     take m (drop a' (fold (\<lambda>pattern result. fst (regExpReplace pattern result)) ps T))
       = take m (drop a T)"
proof (induction ps arbitrary: T a)
  case Nil
  then show ?case by simp
next
  case (Cons R ps)
  from Cons.prems(1) have plain: "\<not> rxGlobal R" "\<not> rxSticky R"
    and rest: "list_all (\<lambda>R. \<not> rxGlobal R \<and> \<not> rxSticky R) ps" by simp_all
  note rep = regExpReplace_exec[OF plain, of T]
  show ?case
  proof (cases "fst (regExpBuiltinExec R T)")
    case None
    with Cons.prems(2) have t: "trackSegment ps T a m = Some a'" by simp
    from None rep have "fst (regExpReplace R T) = T" by simp
    with Cons.IH[OF rest t] show ?thesis by simp
  next
    case (Some x)
    obtain i matched where x: "x = (i, matched)" by (cases x)
    from regExpBuiltinExec_index[OF Some[unfolded x]] have le: "i \<le> length T" .
    from Some x rep
    have r: "fst (regExpReplace R T) = take i T @ drop (i + length matched) T" by simp
    show ?thesis
    proof (cases "i + length matched \<le> a")
      case True
      with Cons.prems(2) Some x
      have t: "trackSegment ps (fst (regExpReplace R T)) (a - length matched) m = Some a'"
        by simp
      have "take m (drop a' (fold (\<lambda>pattern result. fst (regExpReplace pattern result)) ps
                               (fst (regExpReplace R T))))
              = take m (drop (a - length matched) (fst (regExpReplace R T)))"
        by (rule Cons.IH[OF rest t])
      also have "\<dots> = take m (drop a T)"
        unfolding r by (simp only: segment_after[OF le True])
      finally show ?thesis by (simp only: fold_Cons comp_apply)
    next
      case False
      with Cons.prems(2) Some x have before: "a + m \<le> i"
        and t: "trackSegment ps (fst (regExpReplace R T)) a m = Some a'"
        by (simp_all split: if_splits)
      have "take m (drop a' (fold (\<lambda>pattern result. fst (regExpReplace pattern result)) ps
                               (fst (regExpReplace R T))))
              = take m (drop a (fst (regExpReplace R T)))"
        by (rule Cons.IH[OF rest t])
      also have "\<dots> = take m (drop a T)"
        unfolding r by (rule segment_before[OF le before])
      finally show ?thesis by (simp only: fold_Cons comp_apply)
    qed
  qed
qed

lemma geo_patterns_plain:
  "list_all (\<lambda>R. \<not> rxGlobal R \<and> \<not> rxSticky R) (GEO_TERM_PATTERNS E)"
  by (simp add: GEO_TERM_PATTERNS_def list_all_iff geoPattern_flags split_beta)

lemma occursIn_segment: "occursIn (take m (drop a s)) s"
proof -
  have "s = take a s @ take m (drop a s) @ drop m (drop a s)"
    by (simp only: append_take_drop_id)
  then show ?thesis unfolding occursIn_def by blast
qed

text \<open>A text without white space that occurs in a text occurs in one of its words.\<close>

lemma wsWords_first:
  "\<not> isWhiteSpace x \<Longrightarrow> wsWords (x # xs) \<noteq> [] \<and> (\<exists>q. x # xs = hd (wsWords (x # xs)) @ q)"
proof (induction xs arbitrary: x)
  case Nil
  then show ?case by (simp add: wsWords_letter wsWords_Nil)
next
  case (Cons y ys)
  show ?case
  proof (cases "isWhiteSpace y")
    case True
    with Cons.prems show ?thesis by (simp add: wsWords_letter)
  next
    case False
    from Cons.IH[OF False] obtain q where "wsWords (y # ys) \<noteq> []"
      "y # ys = hd (wsWords (y # ys)) @ q" by blast
    with Cons.prems False show ?thesis
      by (simp add: wsWords_letter[of x "y # ys"] del: wsWords_letter) (metis append_Cons)
  qed
qed

lemma wsWords_occur: "w \<in> set (wsWords s) \<Longrightarrow> occursIn w s"
proof (induction s arbitrary: w)
  case Nil
  then show ?case by (simp add: wsWords_Nil)
next
  case (Cons x xs)
  show ?case
  proof (cases "isWhiteSpace x")
    case True
    with Cons.prems have "w \<in> set (wsWords xs)" by (simp add: wsWords_space)
    from Cons.IH[OF this] obtain pre post where "xs = pre @ w @ post"
      unfolding occursIn_def by blast
    then have "x # xs = (x # pre) @ w @ post" by simp
    then show ?thesis unfolding occursIn_def by blast
  next
    case False
    note nx = this
    show ?thesis
    proof (cases "xs = [] \<or> isWhiteSpace (hd xs)")
      case True
      with Cons.prems nx have "w = [x] \<or> w \<in> set (wsWords xs)"
        by (simp add: wsWords_letter)
      then show ?thesis
      proof
        assume "w = [x]"
        then have "x # xs = [] @ w @ xs" by simp
        then show ?thesis unfolding occursIn_def by blast
      next
        assume "w \<in> set (wsWords xs)"
        from Cons.IH[OF this] obtain pre post where "xs = pre @ w @ post"
          unfolding occursIn_def by blast
        then have "x # xs = (x # pre) @ w @ post" by simp
        then show ?thesis unfolding occursIn_def by blast
      qed
    next
      case False
      then obtain y ys where xs: "xs = y # ys" and ny: "\<not> isWhiteSpace y"
        by (cases xs) auto
      from wsWords_first[OF ny, of ys] obtain q where ne: "wsWords xs \<noteq> []"
        and pre: "xs = hd (wsWords xs) @ q" by (auto simp: xs)
      from Cons.prems nx False
      have "w = x # hd (wsWords xs) \<or> w \<in> set (tl (wsWords xs))"
        by (simp add: wsWords_letter)
      then show ?thesis
      proof
        assume w: "w = x # hd (wsWords xs)"
        from pre have "x # xs = [] @ (x # hd (wsWords xs)) @ q" by simp
        then show ?thesis unfolding occursIn_def w by blast
      next
        assume "w \<in> set (tl (wsWords xs))"
        with ne have "w \<in> set (wsWords xs)" by (cases "wsWords xs") simp_all
        from Cons.IH[OF this] obtain pre post where "xs = pre @ w @ post"
          unfolding occursIn_def by blast
        then have "x # xs = (x # pre) @ w @ post" by simp
        then show ?thesis unfolding occursIn_def by blast
      qed
    qed
  qed
qed

lemma wsWords_prefix:
  "u \<noteq> [] \<Longrightarrow> \<forall>c\<in>set u. \<not> isWhiteSpace c \<Longrightarrow>
     wsWords (u @ q) \<noteq> [] \<and> (\<exists>y. hd (wsWords (u @ q)) = u @ y)"
proof (induction u)
  case Nil
  then show ?case by simp
next
  case (Cons c u)
  from Cons.prems have nc: "\<not> isWhiteSpace c" by simp
  show ?case
  proof (cases "u = []")
    case True
    show ?thesis
    proof (cases "q = [] \<or> isWhiteSpace (hd q)")
      case True
      with nc \<open>u = []\<close> show ?thesis by (simp add: wsWords_letter)
    next
      case False
      with nc \<open>u = []\<close> show ?thesis by (simp add: wsWords_letter)
    qed
  next
    case False
    with Cons.IH Cons.prems obtain y where ne: "wsWords (u @ q) \<noteq> []"
      and h: "hd (wsWords (u @ q)) = u @ y" by auto
    from False Cons.prems have "\<not> (u @ q = [] \<or> isWhiteSpace (hd (u @ q)))"
      by (cases u) simp_all
    with nc ne h show ?thesis by (simp add: wsWords_letter)
  qed
qed

lemma occursIn_word:
  "u \<noteq> [] \<Longrightarrow> \<forall>c\<in>set u. \<not> isWhiteSpace c \<Longrightarrow>
     \<exists>w\<in>set (wsWords (p @ u @ q)). occursIn u w"
proof (induction p)
  case Nil
  from wsWords_prefix[OF Nil, of q] obtain y where ne: "wsWords (u @ q) \<noteq> []"
    and h: "hd (wsWords (u @ q)) = u @ y" by blast
  from h have "hd (wsWords (u @ q)) = [] @ u @ y" by simp
  then have "occursIn u (hd (wsWords (u @ q)))" unfolding occursIn_def by blast
  with ne show ?case by (auto intro: bexI[of _ "hd (wsWords (u @ q))"])
next
  case (Cons x p)
  from Cons.IH[OF Cons.prems] obtain w where w: "w \<in> set (wsWords (p @ u @ q))"
    and o: "occursIn u w" by blast
  show ?case
  proof (cases "isWhiteSpace x")
    case True
    with w o show ?thesis by (auto simp: wsWords_space)
  next
    case False
    note nx = this
    show ?thesis
    proof (cases "p @ u @ q = [] \<or> isWhiteSpace (hd (p @ u @ q))")
      case True
      with nx w o show ?thesis by (auto simp: wsWords_letter)
    next
      case False
      from w have ne: "wsWords (p @ u @ q) \<noteq> []" by auto
      show ?thesis
      proof (cases "w = hd (wsWords (p @ u @ q))")
        case True
        from o obtain a b where "w = a @ u @ b" unfolding occursIn_def by blast
        then have "x # w = (x # a) @ u @ b" by simp
        then have "occursIn u (x # hd (wsWords (p @ u @ q)))"
          unfolding occursIn_def True by blast
        with nx False show ?thesis by (auto simp: wsWords_letter)
      next
        case nh: False
        with w ne have "w \<in> set (tl (wsWords (p @ u @ q)))"
          by (cases "wsWords (p @ u @ q)") auto
        with nx False o show ?thesis by (auto simp: wsWords_letter)
      qed
    qed
  qed
qed

lemma occursIn_trans: "occursIn u w \<Longrightarrow> occursIn w s \<Longrightarrow> occursIn u s"
proof -
  assume "occursIn u w" and "occursIn w s"
  then obtain a b c d where "w = a @ u @ b" "s = c @ w @ d" unfolding occursIn_def by blast
  then have "s = (c @ a) @ u @ (b @ d)" by simp
  then show ?thesis unfolding occursIn_def by blast
qed

lemma occursIn_normalizeWhitespace:
  assumes "u \<noteq> []" and "\<forall>c\<in>set u. \<not> isWhiteSpace c" and "occursIn u s"
  shows "occursIn u (normalizeWhitespace s)"
proof -
  from assms(3) obtain p q where "s = p @ u @ q" unfolding occursIn_def by blast
  with occursIn_word[OF assms(1,2), of p q]
  obtain w where w: "w \<in> set (wsWords s)" and o: "occursIn u w" by blast
  from w have "w \<in> set (wsWords (normalizeWhitespace s))"
    by (simp add: wsWords_normalizeWhitespace)
  from occursIn_trans[OF o wsWords_occur[OF this]] show ?thesis .
qed


section \<open>Concrete runs with custom patterns and with several geographical terms\<close>

lemma nb_qq_is: "\<not> blankInput (JSString (ascii ''qq is''))"
  by (simp add: blankInput_def ascii_def isWhiteSpace_def)

lemma tokens_sticky_first:
  "tokens sampleEnv stickyStore (ascii ''qq is'') patternOptions = [[105, 115]]"
  by (simp add: char_defs regex_defs regexp_defs text_defs sample_defs patternOptions_def
        stickyStore_def qqPattern_def)

lemma store_sticky_first:
  "storeAfter sampleEnv stickyStore (JSString (ascii ''qq is'')) patternOptions
     = stickyStore(0 := (stickyStore 0)\<lparr>lastIndex := 2\<rparr>)"
  by (simp add: storeAfter_def nb_qq_is)
     (simp add: char_defs regex_defs regexp_defs text_defs sample_defs patternOptions_def
        stickyStore_def qqPattern_def, simp add: numeral_2_eq_2)

lemma tokens_sticky_second:
  "tokens sampleEnv (stickyStore(0 := (stickyStore 0)\<lparr>lastIndex := 2\<rparr>)) (ascii ''qq is'')
     patternOptions = [[113, 113], [105, 115]]"
  by (simp add: char_defs regex_defs regexp_defs text_defs sample_defs patternOptions_def
        stickyStore_def qqPattern_def)

lemma tokens_global:
  "tokens sampleEnv globalStore (ascii ''qq is'') patternOptions = [[105, 115]]"
  by (simp add: char_defs regex_defs regexp_defs text_defs sample_defs patternOptions_def
        globalStore_def qqPattern_def)

lemma counts_is: 
  "tokens sampleEnv h t patternOptions = [[105, 115]] \<Longrightarrow>
     wordCounts sampleEnv h t patternOptions = (1, 1)"
  by (simp add: count_defs patternOptions_def)

lemma counts_qq_is: 
  "tokens sampleEnv h t patternOptions = [[113, 113], [105, 115]] \<Longrightarrow>
     wordCounts sampleEnv h t patternOptions = (1, 2)"
  by (simp add: count_defs patternOptions_def)

lemma detectPure_one_word:
  "tokens sampleEnv h (ascii ''qq is'') patternOptions = [[105, 115]] \<Longrightarrow>
     detectPure sampleEnv h (JSString (ascii ''qq is'')) patternOptions = Inr False"
  by (simp add: detectPure_string[OF nb_qq_is] englishRatio_def effectiveThreshold_def counts_is
        englishRatioOf_def)

lemma detectPure_two_words:
  "tokens sampleEnv h (ascii ''qq is'') patternOptions = [[113, 113], [105, 115]] \<Longrightarrow>
     detectPure sampleEnv h (JSString (ascii ''qq is'')) patternOptions = Inr True"
  by (simp add: detectPure_string[OF nb_qq_is] englishRatio_def effectiveThreshold_def
        counts_qq_is englishRatioOf_def francAnswer_sample rescue_def und_not_eng)

lemmas geo_eval = firstMatch_search matchesNowhere_search matchesAt_def char_defs regex_defs
  regexp_defs text_defs sample_defs threeTermEnv_def pluralEnv_def

lemma three_track:
  "trackSegment (GEO_TERM_PATTERNS threeTermEnv) (ascii ''India and Peru and India'') 19 5
     = Some 10"
  by (simp add: geo_eval)

lemma three_first:
  "firstMatch (geoPattern threeTermEnv (ascii ''India'')) (ascii ''India and  and India'') 0 5"
  by (simp add: geo_eval)

lemma three_loop:
  "fold (\<lambda>pattern result. fst (regExpReplace pattern result)) (GEO_TERM_PATTERNS threeTermEnv)
     (ascii ''India and Peru and India'') = ascii '' and  and India''"
  by (simp add: geo_eval)

lemma three_removed:
  "removeGeographicalTerms threeTermEnv (ascii ''India and Peru and India'')
     = ascii ''and and India''"
  by (simp add: geo_eval)

lemma plural_removed:
  "removeGeographicalTerms pluralEnv (ascii ''Indias and Indias'') = ascii ''and''"
  by (simp add: geo_eval)

lemma plural_track:
  "trackSegment (GEO_TERM_PATTERNS pluralEnv) (ascii ''Indias and Indias'') 11 6 = None"
  by (simp add: geo_eval)

lemma plural_matches:
  "matchesAt (geoPattern pluralEnv (ascii ''Indias'')) (ascii ''Indias and Indias'') 0 6"
  "matchesAt (geoPattern pluralEnv (ascii ''Indias'')) (ascii ''Indias and Indias'') 11 6"
  by (simp_all add: geo_eval)

text \<open>
  A term with syntax characters is read as a pattern: the dots of the term \<^verbatim>\<open>U.S.\<close>
  match any character, so its pattern removes \<^verbatim>\<open>USSR\<close> and, having no word boundary
  after a final dot that a space follows or that ends the text, never the term itself.
\<close>

lemma dotted_term:
  "fst (regExpReplace (geoPattern sampleEnv (ascii ''U.S.'')) (ascii ''the USSR and the U.S.''))
     = ascii ''the  and the U.S.''"
  by (simp add: geo_eval)


section \<open>The claims\<close>

text \<open>
  C1. For every null, undefined, non-string, empty or whitespace-only input and every options
  record, \<open>detectNonEnglishText\<close> returns false and \<open>isEnglish\<close> returns true; the caches
  and the caller's patterns are left as they were.
\<close>

theorem C1_blank_input:
  "blankInput v \<Longrightarrow>
     detectNonEnglishText E st h v options = (Inr False, st, h) \<and>
     isEnglish E st h v options = (Inr True, st, h)"
  by (simp add: detect_blank isEnglish_def)

theorem C1_blank_input_witness:
  "blankInput (JSString (ascii ''   '')) \<and>
   detectNonEnglishText sampleEnv emptyCaches globalStore (JSString (ascii ''   '')) defaultOptions
     = (Inr False, emptyCaches, globalStore) \<and>
   isEnglish sampleEnv emptyCaches globalStore (JSString (ascii ''   '')) defaultOptions
     = (Inr True, emptyCaches, globalStore)"
proof -
  have b: "blankInput (JSString (ascii ''   ''))"
    by (simp add: blankInput_def ascii_def isWhiteSpace_def)
  from C1_blank_input[OF b, where E = sampleEnv and st = emptyCaches and h = globalStore
      and options = defaultOptions] b
  show ?thesis by simp
qed

text \<open>
  C2 (as amended). The caches are pure memoization: the result of \<open>detectNonEnglishText\<close>
  on a text and an options record is the same in any two cache states the module can reach,
  also after \<open>clearLanguageDetectorCaches\<close>, when the custom patterns of the options are in
  the same state at both calls; the two calls then leave the patterns in the same state.  If
  no custom pattern of the options is sticky without being global, a call leaves the patterns
  as they were, so that the second of two calls in a row, and a call in any reachable cache
  state after the first, returns what the first returned.
\<close>

theorem C2_caches_pure_memoization:
  "reachable E st \<Longrightarrow> reachable E st' \<Longrightarrow> samePatternState options h h' \<Longrightarrow>
     fst (detectNonEnglishText E st h v options) = fst (detectNonEnglishText E st' h' v options) \<and>
     samePatternState options (snd (snd (detectNonEnglishText E st h v options)))
       (snd (snd (detectNonEnglishText E st' h' v options))) \<and>
     fst (detectNonEnglishText E (clearLanguageDetectorCaches st) h v options)
       = fst (detectNonEnglishText E st h v options) \<and>
     (noStickyOnly options h \<longrightarrow>
        samePatternState options h (snd (snd (detectNonEnglishText E st h v options))) \<and>
        fst (detectNonEnglishText E (fst (snd (detectNonEnglishText E st h v options)))
               (snd (snd (detectNonEnglishText E st h v options))) v options)
          = fst (detectNonEnglishText E st h v options) \<and>
        fst (detectNonEnglishText E st'
               (snd (snd (detectNonEnglishText E st h v options))) v options)
          = fst (detectNonEnglishText E st h v options))"
proof -
  assume r: "reachable E st" and r': "reachable E st'" and sp: "samePatternState options h h'"
  have a: "reachable E (fst (snd (detectNonEnglishText E st h v options)))"
    using r by (rule reach_detect)
  have b: "reachable E (clearLanguageDetectorCaches st)"
    using r by (rule reach_clear)
  have c1: "fst (detectNonEnglishText E st h v options)
              = fst (detectNonEnglishText E st' h' v options)"
    by (simp only: detect_reachable[OF r] detect_reachable[OF r'] detectPure_same[OF sp])
  have c2: "samePatternState options (snd (snd (detectNonEnglishText E st h v options)))
              (snd (snd (detectNonEnglishText E st' h' v options)))"
    by (simp only: detect_store[OF r] detect_store[OF r'] storeAfter_same[OF sp])
  have c3: "fst (detectNonEnglishText E (clearLanguageDetectorCaches st) h v options)
              = fst (detectNonEnglishText E st h v options)"
    by (simp only: detect_reachable[OF r] detect_reachable[OF b])
  have c4: "samePatternState options h (snd (snd (detectNonEnglishText E st h v options))) \<and>
        fst (detectNonEnglishText E (fst (snd (detectNonEnglishText E st h v options)))
               (snd (snd (detectNonEnglishText E st h v options))) v options)
          = fst (detectNonEnglishText E st h v options) \<and>
        fst (detectNonEnglishText E st'
               (snd (snd (detectNonEnglishText E st h v options))) v options)
          = fst (detectNonEnglishText E st h v options)"
    if ns: "noStickyOnly options h"
  proof -
    have k: "samePatternState options h (storeAfter E h v options)"
      using ns by (rule storeAfter_keeps)
    show ?thesis
      by (simp only: detect_reachable[OF r] detect_reachable[OF a] detect_reachable[OF r']
            detect_store[OF r] detectPure_same[OF k, symmetric] k simp_thms)
  qed
  from c1 c2 c3 c4 show ?thesis by blast
qed

theorem C2_caches_pure_memoization_witness:
  "reachable sampleEnv emptyCaches \<and>
   reachable sampleEnv
     (fst (snd (detectNonEnglishText sampleEnv emptyCaches globalStore (JSString (ascii ''is''))
                  defaultOptions))) \<and>
   samePatternState patternOptions globalStore globalStore \<and>
   noStickyOnly patternOptions globalStore \<and>
   fst (detectNonEnglishText sampleEnv emptyCaches globalStore (JSString (ascii ''qq is''))
          patternOptions) = Inr False \<and>
   fst (detectNonEnglishText sampleEnv
          (fst (snd (detectNonEnglishText sampleEnv emptyCaches globalStore
                       (JSString (ascii ''is'')) defaultOptions)))
          globalStore (JSString (ascii ''qq is'')) patternOptions) = Inr False \<and>
   fst (detectNonEnglishText sampleEnv
          (fst (snd (detectNonEnglishText sampleEnv emptyCaches globalStore
                       (JSString (ascii ''qq is'')) patternOptions)))
          (snd (snd (detectNonEnglishText sampleEnv emptyCaches globalStore
                       (JSString (ascii ''qq is'')) patternOptions)))
          (JSString (ascii ''qq is'')) patternOptions) = Inr False"
proof -
  have r: "reachable sampleEnv emptyCaches" by (rule reach_init)
  have r': "reachable sampleEnv
              (fst (snd (detectNonEnglishText sampleEnv emptyCaches globalStore
                           (JSString (ascii ''is'')) defaultOptions)))"
    using r by (rule reach_detect)
  have sp: "samePatternState patternOptions globalStore globalStore"
    by (simp add: samePatternState_def)
  have ns: "noStickyOnly patternOptions globalStore"
    by (simp add: noStickyOnly_def globalStore_def stickyOnly_def)
  have v: "fst (detectNonEnglishText sampleEnv emptyCaches globalStore (JSString (ascii ''qq is''))
                  patternOptions) = Inr False"
    by (simp only: detect_reachable[OF r] detectPure_one_word[OF tokens_global])
  from C2_caches_pure_memoization[OF r r' sp, of "JSString (ascii ''qq is'')"] r r' sp ns v
  show ?thesis by simp
qed

theorem C2_counterexample:
  "reachable sampleEnv emptyCaches \<and>
   fst (detectNonEnglishText sampleEnv emptyCaches stickyStore (JSString (ascii ''qq is''))
          patternOptions) = Inr False \<and>
   fst (detectNonEnglishText sampleEnv
          (fst (snd (detectNonEnglishText sampleEnv emptyCaches stickyStore
                       (JSString (ascii ''qq is'')) patternOptions)))
          (snd (snd (detectNonEnglishText sampleEnv emptyCaches stickyStore
                       (JSString (ascii ''qq is'')) patternOptions)))
          (JSString (ascii ''qq is'')) patternOptions) = Inr True \<and>
   fst (detectNonEnglishText sampleEnv emptyCaches
          (snd (snd (detectNonEnglishText sampleEnv emptyCaches stickyStore
                       (JSString (ascii ''qq is'')) patternOptions)))
          (JSString (ascii ''qq is'')) patternOptions) = Inr True"
proof -
  have r: "reachable sampleEnv emptyCaches" by (rule reach_init)
  have r1: "reachable sampleEnv
              (fst (snd (detectNonEnglishText sampleEnv emptyCaches stickyStore
                           (JSString (ascii ''qq is'')) patternOptions)))"
    using r by (rule reach_detect)
  have a: "fst (detectNonEnglishText sampleEnv emptyCaches stickyStore (JSString (ascii ''qq is''))
                  patternOptions) = Inr False"
    by (simp only: detect_reachable[OF r] detectPure_one_word[OF tokens_sticky_first])
  have b: "fst (detectNonEnglishText sampleEnv
          (fst (snd (detectNonEnglishText sampleEnv emptyCaches stickyStore
                       (JSString (ascii ''qq is'')) patternOptions)))
          (snd (snd (detectNonEnglishText sampleEnv emptyCaches stickyStore
                       (JSString (ascii ''qq is'')) patternOptions)))
          (JSString (ascii ''qq is'')) patternOptions) = Inr True"
    by (simp only: detect_reachable[OF r1] detect_store[OF r] store_sticky_first
          detectPure_two_words[OF tokens_sticky_second])
  have c: "fst (detectNonEnglishText sampleEnv emptyCaches
          (snd (snd (detectNonEnglishText sampleEnv emptyCaches stickyStore
                       (JSString (ascii ''qq is'')) patternOptions)))
          (JSString (ascii ''qq is'')) patternOptions) = Inr True"
    by (simp only: detect_reachable[OF r] detect_store[OF r] store_sticky_first
          detectPure_two_words[OF tokens_sticky_second])
  from r a b c show ?thesis by blast
qed

text \<open>
  C3. \<open>detectNonEnglishText\<close> is monotone in \<open>englishThreshold\<close>: for thresholds
  \<open>t1 \<le> t2\<close>, all else fixed, if the call with \<open>t1\<close> returns true (non-English) then the
  call with \<open>t2\<close> returns true.
\<close>

theorem C3_threshold_monotone:
  "reachable E st1 \<Longrightarrow> reachable E st2 \<Longrightarrow> t1 \<le> t2 \<Longrightarrow>
     fst (detectNonEnglishText E st1 h v (options\<lparr>englishThreshold := Some t1\<rparr>)) = Inr True \<Longrightarrow>
     fst (detectNonEnglishText E st2 h v (options\<lparr>englishThreshold := Some t2\<rparr>)) = Inr True"
proof -
  assume r1: "reachable E st1" and r2: "reachable E st2" and le: "t1 \<le> t2"
    and "fst (detectNonEnglishText E st1 h v (options\<lparr>englishThreshold := Some t1\<rparr>)) = Inr True"
  then have p: "detectPure E h v (options\<lparr>englishThreshold := Some t1\<rparr>) = Inr True"
    by (simp only: detect_reachable[OF r1])
  have nb: "\<not> blankInput v"
  proof
    assume "blankInput v"
    then have "detectPure E h v (options\<lparr>englishThreshold := Some t1\<rparr>) = Inr False"
      by (cases v) (simp_all add: detectPure_def)
    with p show False by simp
  qed
  then obtain s where v: "v = JSString s" by (cases v) (simp_all add: blankInput_def)
  have e: "effectiveThreshold E h s (options\<lparr>englishThreshold := Some t1\<rparr>)
             \<le> effectiveThreshold E h s (options\<lparr>englishThreshold := Some t2\<rparr>)"
    using le by (simp add: effectiveThreshold_def)
  from p nb have "detectPure E h v (options\<lparr>englishThreshold := Some t2\<rparr>) = Inr True"
    unfolding v using e by (simp add: detectPure_string split: if_splits)
  then show ?thesis by (simp only: detect_reachable[OF r2])
qed

theorem C3_threshold_monotone_witness:
  "reachable sampleEnv emptyCaches \<and> (85 / 100 :: real) \<le> 9 / 10 \<and>
   fst (detectNonEnglishText sampleEnv emptyCaches globalStore (JSString (ascii ''is is is is qq1''))
          (defaultOptions\<lparr>englishThreshold := Some (85 / 100)\<rparr>)) = Inr True \<and>
   fst (detectNonEnglishText sampleEnv emptyCaches globalStore (JSString (ascii ''is is is is qq1''))
          (defaultOptions\<lparr>englishThreshold := Some (9 / 10)\<rparr>)) = Inr True"
proof -
  have h: "reachable sampleEnv emptyCaches" by (rule reach_init)
  have le: "(85 / 100 :: real) \<le> 9 / 10" by simp
  have t: "fst (detectNonEnglishText sampleEnv emptyCaches globalStore (JSString (ascii ''is is is is qq1''))
          (defaultOptions\<lparr>englishThreshold := Some (85 / 100)\<rparr>)) = Inr True"
    by (simp add: detect_is_qq1)
  from C3_threshold_monotone[OF h h le t] h le t show ?thesis by blast
qed

text \<open>
  C4. For every input whose preprocessed text splits into at most 4 tokens, the threshold the
  english ratio is compared against is 0.6, whatever \<open>englishThreshold\<close> the options
  configure: the call answers false exactly when the ratio is at least 0.6, and changing the
  configured threshold does not change the answer.
\<close>

theorem C4_short_text_threshold:
  "reachable E st \<Longrightarrow> \<not> blankInput (JSString s) \<Longrightarrow> length (tokens E h s options) \<le> 4 \<Longrightarrow>
     effectiveThreshold E h s options = 6 / 10 \<and>
     (fst (detectNonEnglishText E st h (JSString s) options) = Inr False
        \<longleftrightarrow> englishRatio E h s options \<ge> 6 / 10) \<and>
     fst (detectNonEnglishText E st h (JSString s) (options\<lparr>englishThreshold := x\<rparr>))
       = fst (detectNonEnglishText E st h (JSString s) options)"
proof -
  assume r: "reachable E st" and nb: "\<not> blankInput (JSString s)"
    and len: "length (tokens E h s options) \<le> 4"
  have e: "effectiveThreshold E h s options = 6 / 10"
    using len by (rule effectiveThreshold_short)
  have e': "effectiveThreshold E h s (options\<lparr>englishThreshold := x\<rparr>) = 6 / 10"
    using len by (simp add: effectiveThreshold_short)
  have low: "englishRatio E h s options < 6 / 10 \<Longrightarrow>
               rescue (englishRatio E h s options) (francAnswer E s) \<noteq> Inr False"
    by (rule rescue_low) simp
  have a: "detectPure E h (JSString s) options = Inr False \<longleftrightarrow> englishRatio E h s options \<ge> 6 / 10"
    using low by (auto simp: detectPure_string[OF nb] e)
  have b: "detectPure E h (JSString s) (options\<lparr>englishThreshold := x\<rparr>)
             = detectPure E h (JSString s) options"
    by (simp add: detectPure_string[OF nb] e e')
  show ?thesis using e a b by (simp only: detect_reachable[OF r] simp_thms)
qed

theorem C4_short_text_threshold_witness:
  "reachable sampleEnv emptyCaches \<and> \<not> blankInput (JSString (ascii ''is qq'')) \<and>
   length (tokens sampleEnv globalStore (ascii ''is qq'') (defaultOptions\<lparr>englishThreshold := Some (1 / 10)\<rparr>)) \<le> 4 \<and>
   effectiveThreshold sampleEnv globalStore (ascii ''is qq'') (defaultOptions\<lparr>englishThreshold := Some (1 / 10)\<rparr>)
     = 6 / 10 \<and>
   englishRatio sampleEnv globalStore (ascii ''is qq'') (defaultOptions\<lparr>englishThreshold := Some (1 / 10)\<rparr>) = 1 / 2 \<and>
   fst (detectNonEnglishText sampleEnv emptyCaches globalStore (JSString (ascii ''is qq''))
          (defaultOptions\<lparr>englishThreshold := Some (1 / 10)\<rparr>)) \<noteq> Inr False"
proof -
  let ?o = "defaultOptions\<lparr>englishThreshold := Some (1 / 10)\<rparr>"
  have h: "reachable sampleEnv emptyCaches" by (rule reach_init)
  have len: "length (tokens sampleEnv globalStore (ascii ''is qq'') ?o) \<le> 4"
    by (simp add: tokens_is_qq)
  have ratio: "englishRatio sampleEnv globalStore (ascii ''is qq'') ?o = 1 / 2"
    by (simp add: ratio_is_qq)
  from C4_short_text_threshold[OF h nb_is_qq len] h nb_is_qq len ratio
  show ?thesis by simp
qed

text \<open>
  C5. The claim has the Trigram Fallback Analyzer consulted on the preprocessed text.  The
  code consults it on the raw input: for the input \<^verbatim>\<open>is is is is qq1\<close> with threshold
  0.9 the preprocessed text is \<^verbatim>\<open>is is is is qq\<close>, the ratio 0.8 is below the threshold,
  and with an identifier that takes the preprocessed text for English and every other text
  for undetermined the call answers true, where the analysis of the preprocessed text gives
  false; the entry the call leaves in the trigram cache has the raw input as its key.
\<close>

theorem C5_analyser_input_at_failing_input:
  "preprocessText probeEnv globalStore (ascii ''is is is is qq1'') None None
     = (ascii ''is is is is qq'', globalStore) \<and>
   englishRatio probeEnv globalStore (ascii ''is is is is qq1'')
     (defaultOptions\<lparr>englishThreshold := Some (9 / 10)\<rparr>) = 4 / 5 \<and>
   effectiveThreshold probeEnv globalStore (ascii ''is is is is qq1'')
     (defaultOptions\<lparr>englishThreshold := Some (9 / 10)\<rparr>) = 9 / 10 \<and>
   fst (detectNonEnglishText probeEnv emptyCaches globalStore
          (JSString (ascii ''is is is is qq1''))
          (defaultOptions\<lparr>englishThreshold := Some (9 / 10)\<rparr>)) = Inr True \<and>
   rescue (4 / 5) (fst (francLanguageAnalysis probeEnv emptyCaches (ascii ''is is is is qq'')))
     = Inr False \<and>
   map fst (francCache (fst (snd (detectNonEnglishText probeEnv emptyCaches globalStore
                                    (JSString (ascii ''is is is is qq1''))
                                    (defaultOptions\<lparr>englishThreshold := Some (9 / 10)\<rparr>)))))
     = [ascii ''is is is is qq1'']"
proof -
  let ?raw = "ascii ''is is is is qq1''" and ?clean = "ascii ''is is is is qq''"
  let ?o = "defaultOptions\<lparr>englishThreshold := Some (9 / 10)\<rparr>"
  have pre: "preprocessText probeEnv globalStore ?raw None None = (?clean, globalStore)"
    unfolding probeEnv_def preprocessText_def removeGeographicalTerms_def GEO_TERM_PATTERNS_def
      geoPattern_def newRegExp_def env_francAll
    using preprocess_is_qq1[of globalStore]
    unfolding preprocessText_def removeGeographicalTerms_def GEO_TERM_PATTERNS_def
      geoPattern_def newRegExp_def .
  have ratio0: "englishRatio probeEnv globalStore ?raw defaultOptions = 4 / 5"
    by (simp add: probeEnv_def ratio_is_qq1)
  then have ratio: "englishRatio probeEnv globalStore ?raw ?o = 4 / 5"
    by simp
  have eff: "effectiveThreshold probeEnv globalStore ?raw ?o = 9 / 10"
    by (simp add: probeEnv_def eff_is_qq1)
  have fraw: "francAnswer probeEnv ?raw = Inr \<lparr>language = ascii ''und'', confidence = 1\<rparr>"
    by (simp add: francAnswer_def francPure_def probeEnv_def raw_not_cleaned und_not_eng)
  have fclean: "francAnswer probeEnv ?clean = Inr \<lparr>language = ascii ''eng'', confidence = 1\<rparr>"
    by (simp add: francAnswer_def francPure_def probeEnv_def)
  have a: "fst (detectNonEnglishText probeEnv emptyCaches globalStore (JSString ?raw) ?o) = Inr True"
    by (simp add: detect_reachable[OF reach_init] detectPure_string[OF nb_is_qq1] ratio0 eff fraw
          rescue_def und_not_eng)
  have b: "rescue (4 / 5) (fst (francLanguageAnalysis probeEnv emptyCaches ?clean)) = Inr False"
    by (simp add: francAnswer_reachable[OF reach_init] fclean rescue_def)
  have p: "francPure (francAll probeEnv ?raw) = Some (ascii ''und'', 1)"
    by (simp add: francPure_def probeEnv_def raw_not_cleaned und_not_eng)
  have low: "englishRatio probeEnv globalStore ?raw ?o < effectiveThreshold probeEnv globalStore ?raw ?o"
    by (simp add: ratio0 eff)
  have c: "map fst (francCache (fst (snd (detectNonEnglishText probeEnv emptyCaches globalStore
                                            (JSString ?raw) ?o)))) = [?raw]"
    by (simp add: detect_francCache_fresh[OF nb_is_qq1 low p])
  from pre ratio eff a b c show ?thesis by blast
qed

theorem C5_analyser_input_at_failing_input_witness:
  "fst (detectNonEnglishText probeEnv emptyCaches globalStore
          (JSString (ascii ''is is is is qq1''))
          (defaultOptions\<lparr>englishThreshold := Some (9 / 10)\<rparr>))
     \<noteq> rescue (4 / 5)
         (fst (francLanguageAnalysis probeEnv emptyCaches (ascii ''is is is is qq'')))"
  using C5_analyser_input_at_failing_input by simp

text \<open>
  C6. For a text whose ranking from the external identifier is not empty, the Trigram
  Fallback Analyzer looks at the first 5 candidates only; if one of them is English with
  confidence at least 0.9 it returns the first such candidate, otherwise it returns the
  top-ranked candidate, whatever its language and confidence.
\<close>

theorem C6_trigram_policy:
  "reachable E st \<Longrightarrow> francAll E s \<noteq> [] \<Longrightarrow>
     fst (francLanguageAnalysis E st s) =
       Inr \<lparr>language = fst (trigramPolicy (francAll E s)),
            confidence = snd (trigramPolicy (francAll E s))\<rparr>"
  by (simp add: francAnswer_reachable francAnswer_def francPure_policy)

theorem C6_trigram_policy_witness:
  "reachable rankedEnv emptyCaches \<and> francAll rankedEnv (ascii ''is qq'') \<noteq> [] \<and>
   fst (francLanguageAnalysis rankedEnv emptyCaches (ascii ''is qq''))
     = Inr \<lparr>language = ascii ''eng'', confidence = 95 / 100\<rparr>"
proof -
  have h: "reachable rankedEnv emptyCaches" by (rule reach_init)
  have ne: "francAll rankedEnv (ascii ''is qq'') \<noteq> []" by (simp add: rankedEnv_def)
  have p: "trigramPolicy (francAll rankedEnv (ascii ''is qq'')) = (ascii ''eng'', 95 / 100)"
    by (simp add: trigramPolicy_def rankedEnv_def ascii_def)
  from C6_trigram_policy[OF h ne] h ne show ?thesis by (simp add: p)
qed

text \<open>
  C7 (as amended). If the external identifier returns an empty ranking for the text it is
  given, and the english ratio is below the effective threshold so that the identifier is
  consulted, \<open>detectNonEnglishText\<close> raises a TypeError; it returns no boolean.
\<close>

theorem C7_empty_ranking_raises:
  "reachable E st \<Longrightarrow> \<not> blankInput (JSString s) \<Longrightarrow>
     englishRatio E h s options < effectiveThreshold E h s options \<Longrightarrow> francAll E s = [] \<Longrightarrow>
     fst (detectNonEnglishText E st h (JSString s) options) = Inl TypeError"
proof -
  assume r: "reachable E st" and nb: "\<not> blankInput (JSString s)"
    and low: "englishRatio E h s options < effectiveThreshold E h s options"
    and empty: "francAll E s = []"
  have "francAnswer E s = Inl TypeError"
    by (simp add: francAnswer_def francPure_def empty)
  with low show ?thesis
    by (simp add: detect_reachable[OF r] detectPure_string[OF nb] rescue_def)
qed

theorem C7_empty_ranking_raises_witness:
  "reachable silentEnv emptyCaches \<and> \<not> blankInput (JSString (ascii ''is qq'')) \<and>
   englishRatio silentEnv globalStore (ascii ''is qq'') defaultOptions
     < effectiveThreshold silentEnv globalStore (ascii ''is qq'') defaultOptions \<and>
   francAll silentEnv (ascii ''is qq'') = [] \<and>
   fst (detectNonEnglishText silentEnv emptyCaches globalStore (JSString (ascii ''is qq'')) defaultOptions)
     = Inl TypeError"
proof -
  have h: "reachable silentEnv emptyCaches" by (rule reach_init)
  have low: "englishRatio silentEnv globalStore (ascii ''is qq'') defaultOptions
               < effectiveThreshold silentEnv globalStore (ascii ''is qq'') defaultOptions"
    by (simp add: silentEnv_def ratio_is_qq eff_is_qq)
  have empty: "francAll silentEnv (ascii ''is qq'') = []" by (simp add: silentEnv_def)
  from C7_empty_ranking_raises[OF h nb_is_qq low empty] h nb_is_qq low empty
  show ?thesis by blast
qed

theorem C7_counterexample:
  "francAll silentEnv (ascii ''is qq'') = [] \<and>
   fst (detectNonEnglishText silentEnv emptyCaches globalStore (JSString (ascii ''is qq'')) defaultOptions)
     = Inl TypeError"
proof -
  have "francAnswer silentEnv (ascii ''is qq'') = Inl TypeError"
    by (simp add: francAnswer_def francPure_def silentEnv_def)
  then have "detectPure silentEnv globalStore (JSString (ascii ''is qq'')) defaultOptions = Inl TypeError"
    by (simp add: detectPure_string[OF nb_is_qq] silentEnv_def ratio_is_qq eff_is_qq rescue_def)
  then show ?thesis
    by (simp add: detect_reachable[OF reach_init] silentEnv_def)
qed

text \<open>
  C8. In every state the module can reach, the trigram cache holds at most 1000 entries and
  the word cache at most 5000, each key once.  A \<open>cacheSet\<close> on a cache at or above its
  limit removes exactly the first entry of the map, which is the earliest-inserted entry still
  present since a new key goes to the end, a present key keeps its place and a lookup changes
  nothing; then it inserts the new entry.
\<close>

theorem C8_cache_bounds:
  "reachable E st \<Longrightarrow> distinct (map fst cache) \<Longrightarrow> 0 < limit \<Longrightarrow> limit \<le> mapSize cache \<Longrightarrow>
     mapSize (francCache st) \<le> 1000 \<and> mapSize (wordCache st) \<le> 5000 \<and>
     distinct (map fst (francCache st)) \<and> distinct (map fst (wordCache st)) \<and>
     cacheSet cache limit k v = mapSet (tl cache) k v \<and>
     map fst (cacheSet cache limit k v)
       = (if mapHas (tl cache) k then map fst (tl cache) else map fst (tl cache) @ [k]) \<and>
     mapSize (cacheSet cache limit k v) \<le> mapSize cache"
proof -
  assume r: "reachable E st" and d: "distinct (map fst cache)" and pos: "0 < limit"
    and full: "limit \<le> mapSize cache"
  from reachable_ok[OF r] have a: "mapSize (francCache st) \<le> 1000" "mapSize (wordCache st) \<le> 5000"
    "distinct (map fst (francCache st))" "distinct (map fst (wordCache st))"
    by (simp_all add: cachesOk_def FRANC_CACHE_LIMIT_def WORD_CACHE_LIMIT_def)
  from pos full have ne: "cache \<noteq> []" by (auto simp: mapSize_def)
  have e: "cacheSet cache limit k v = mapSet (tl cache) k v"
    using d ne full by (rule cacheSet_evict)
  have keys: "map fst (mapSet (tl cache) k v)
                = (if mapHas (tl cache) k then map fst (tl cache) else map fst (tl cache) @ [k])"
    by (rule keys_mapSet)
  have size: "mapSize (mapSet (tl cache) k v) \<le> mapSize cache"
    using ne by (cases cache) (simp_all add: mapSize_def length_mapSet)
  from a e keys size show ?thesis by (simp only: simp_thms)
qed

theorem C8_cache_bounds_witness:
  "reachable sampleEnv emptyCaches \<and> distinct (map fst [(1 :: nat, True), (2, False)]) \<and>
   (0 :: nat) < 2 \<and> 2 \<le> mapSize [(1 :: nat, True), (2, False)] \<and>
   cacheSet [(1 :: nat, True), (2, False)] 2 3 True = [(2, False), (3, True)] \<and>
   mapSize (francCache emptyCaches) \<le> 1000"
proof -
  have h: "reachable sampleEnv emptyCaches" by (rule reach_init)
  have d: "distinct (map fst [(1 :: nat, True), (2, False)])" by simp
  have pos: "(0 :: nat) < 2" by simp
  have full: "2 \<le> mapSize [(1 :: nat, True), (2, False)]" by (simp add: mapSize_def)
  from C8_cache_bounds[OF h d pos full, of 3 True] h d pos full
  show ?thesis by simp
qed

text \<open>
  C9. The claim has an exclude-word removed as a whole word only, never from inside a longer
  word.  The pattern of an exclude-word is the word between two \<open>\b\<close>, and \<open>\b\<close> takes
  the letters A to Z and a to z, the digits and the underscore for the characters of a word.
  With Unicode tables in which U+00E9 is a letter: the exclude-word \<^verbatim>\<open>caf\<close> is stripped
  from inside the word made of \<^verbatim>\<open>caf\<close> and U+00E9, of which the last letter alone is
  left, and the exclude-word made of \<^verbatim>\<open>Nestl\<close> and U+00E9 is not removed from the text
  that consists of that very word; the exclude-word \<^verbatim>\<open>can\<close> is stripped from
  \<^verbatim>\<open>can't\<close>.  The example of the claim itself comes out as the claim says.
\<close>

theorem C9_exclude_words_at_failing_inputs:
  "preprocessText accentEnv globalStore (ascii ''caf'' @ [0xE9]) None (Some [ascii ''caf''])
     = ([0xE9], globalStore) \<and>
   preprocessText accentEnv globalStore (ascii ''caf'' @ [0xE9]) None None
     = (ascii ''caf'' @ [0xE9], globalStore) \<and>
   preprocessText accentEnv globalStore (ascii ''Nestl'' @ [0xE9]) None
     (Some [ascii ''Nestl'' @ [0xE9]]) = (ascii ''Nestl'' @ [0xE9], globalStore) \<and>
   preprocessText sampleEnv globalStore (ascii ''I can'' @ [39] @ ascii ''t go'') None
     (Some [ascii ''can'']) = (ascii ''I '' @ [39] @ ascii ''t go'', globalStore) \<and>
   preprocessText sampleEnv globalStore (ascii ''I can'' @ [39] @ ascii ''t go'') None None
     = (ascii ''I can'' @ [39] @ ascii ''t go'', globalStore) \<and>
   preprocessText sampleEnv globalStore (ascii ''the theater is great'') None
     (Some [ascii ''the'']) = (ascii ''theater is great'', globalStore)"
  by (simp add: char_defs regex_defs regexp_defs text_defs sample_defs accentEnv_def)

text \<open>
  C10 (as amended). Geographic-term removal strips at most one occurrence per geo-term
  pattern per call: the pattern of a term, whatever the term, has neither flag \<open>g\<close> nor
  flag \<open>y\<close>, so on a text in which it matches it removes the leftmost match and nothing
  else, the text after that match, with every later occurrence, staying as it is, and on a
  text in which it matches nowhere it changes nothing.  A later occurrence, as any segment of
  the input, is in the text after the loop over the patterns unless the match that the
  pattern of some entry of the term list removes overlaps it; a segment without white space
  then occurs in the text that \<open>removeGeographicalTerms\<close> returns.
\<close>

theorem C10_geo_first_occurrence_only:
  "trackSegment (GEO_TERM_PATTERNS E) S a m = Some a' \<Longrightarrow>
     list_all (\<lambda>R. \<not> rxGlobal R \<and> \<not> rxSticky R) (GEO_TERM_PATTERNS E) \<and>
     (matchesNowhere (geoPattern E w) T \<and>
        regExpReplace (geoPattern E w) T = (T, geoPattern E w) \<or>
      (\<exists>i n. firstMatch (geoPattern E w) T i n \<and>
         regExpReplace (geoPattern E w) T = (take i T @ drop (i + n) T, geoPattern E w))) \<and>
     removeGeographicalTerms E S =
       normalizeWhitespace
         (fold (\<lambda>pattern result. fst (regExpReplace pattern result)) (GEO_TERM_PATTERNS E) S) \<and>
     take m (drop a' (fold (\<lambda>pattern result. fst (regExpReplace pattern result))
                        (GEO_TERM_PATTERNS E) S)) = take m (drop a S) \<and>
     (take m (drop a S) \<noteq> [] \<and> (\<forall>c\<in>set (take m (drop a S)). \<not> isWhiteSpace c) \<longrightarrow>
        occursIn (take m (drop a S)) (removeGeographicalTerms E S))"
proof -
  assume t: "trackSegment (GEO_TERM_PATTERNS E) S a m = Some a'"
  let ?loop = "fold (\<lambda>pattern result. fst (regExpReplace pattern result)) (GEO_TERM_PATTERNS E) S"
  note c1 = geo_patterns_plain[of E]
  have c2: "matchesNowhere (geoPattern E w) T \<and>
              regExpReplace (geoPattern E w) T = (T, geoPattern E w) \<or>
            (\<exists>i n. firstMatch (geoPattern E w) T i n \<and>
               regExpReplace (geoPattern E w) T = (take i T @ drop (i + n) T, geoPattern E w))"
    using geo_first_or_nowhere[of E w T] geo_replace_nowhere[of E w T] geo_replace_first[of E w T]
    by blast
  note c3 = removeGeographicalTerms_fold[of E S]
  note c4 = trackSegment_kept[OF c1 t]
  have c5: "occursIn (take m (drop a S)) (removeGeographicalTerms E S)"
    if ne: "take m (drop a S) \<noteq> []" and ws: "\<forall>c\<in>set (take m (drop a S)). \<not> isWhiteSpace c"
  proof -
    have "occursIn (take m (drop a' ?loop)) ?loop" by (rule occursIn_segment)
    then have "occursIn (take m (drop a S)) ?loop" by (simp only: c4)
    from occursIn_normalizeWhitespace[OF ne ws this] show ?thesis by (simp only: c3)
  qed
  from c1 c2 c3 c4 c5 show ?thesis by blast
qed

theorem C10_geo_first_occurrence_only_witness:
  "trackSegment (GEO_TERM_PATTERNS threeTermEnv) (ascii ''India and Peru and India'') 19 5
     = Some 10 \<and>
   take 5 (drop 19 (ascii ''India and Peru and India'')) = ascii ''India'' \<and>
   fold (\<lambda>pattern result. fst (regExpReplace pattern result)) (GEO_TERM_PATTERNS threeTermEnv)
     (ascii ''India and Peru and India'') = ascii '' and  and India'' \<and>
   take 5 (drop 10 (fold (\<lambda>pattern result. fst (regExpReplace pattern result))
                      (GEO_TERM_PATTERNS threeTermEnv) (ascii ''India and Peru and India'')))
     = ascii ''India'' \<and>
   removeGeographicalTerms threeTermEnv (ascii ''India and Peru and India'')
     = ascii ''and and India'' \<and>
   occursIn (ascii ''India'')
     (removeGeographicalTerms threeTermEnv (ascii ''India and Peru and India'')) \<and>
   regExpReplace (geoPattern threeTermEnv (ascii ''India'')) (ascii ''India and  and India'')
     = (ascii '' and  and India'', geoPattern threeTermEnv (ascii ''India''))"
proof -
  let ?S = "ascii ''India and Peru and India''"
  have seg: "take 5 (drop 19 ?S) = ascii ''India''" by (simp add: ascii_def)
  have ne: "take 5 (drop 19 ?S) \<noteq> []" by (simp add: ascii_def)
  have ws: "\<forall>c\<in>set (take 5 (drop 19 ?S)). \<not> isWhiteSpace c"
    by (simp add: ascii_def isWhiteSpace_def)
  note t = C10_geo_first_occurrence_only[OF three_track,
      of "ascii ''India''" "ascii ''India and  and India''"]
  from t have e4: "take 5 (drop 10 (fold (\<lambda>pattern result. fst (regExpReplace pattern result))
                                      (GEO_TERM_PATTERNS threeTermEnv) ?S))
                     = take 5 (drop 19 ?S)"
    by (elim conjE)
  from t have e5: "take 5 (drop 19 ?S) \<noteq> [] \<and>
                   (\<forall>c\<in>set (take 5 (drop 19 ?S)). \<not> isWhiteSpace c) \<longrightarrow>
                     occursIn (take 5 (drop 19 ?S)) (removeGeographicalTerms threeTermEnv ?S)"
    by (elim conjE)
  from e5 ne ws have "occursIn (take 5 (drop 19 ?S)) (removeGeographicalTerms threeTermEnv ?S)"
    by blast
  then have r5: "occursIn (ascii ''India'') (removeGeographicalTerms threeTermEnv ?S)"
    by (simp only: seg)
  from e4 have r4: "take 5 (drop 10 (fold (\<lambda>pattern result. fst (regExpReplace pattern result))
                                      (GEO_TERM_PATTERNS threeTermEnv) ?S)) = ascii ''India''"
    by (simp only: seg)
  have d: "take 0 (ascii ''India and  and India'') @ drop (0 + 5) (ascii ''India and  and India'')
             = ascii '' and  and India''" by (simp add: ascii_def)
  have r6: "regExpReplace (geoPattern threeTermEnv (ascii ''India'')) (ascii ''India and  and India'')
              = (ascii '' and  and India'', geoPattern threeTermEnv (ascii ''India''))"
    using geo_replace_first[OF three_first] by (simp only: d)
  from three_track seg three_loop r4 three_removed r5 r6 show ?thesis by (intro conjI)
qed

theorem C10_counterexample:
  "wordsToRemove pluralEnv = [(ascii ''India'', True), (ascii ''Indias'', True)] \<and>
   matchesAt (geoPattern pluralEnv (ascii ''Indias'')) (ascii ''Indias and Indias'') 0 6 \<and>
   matchesAt (geoPattern pluralEnv (ascii ''Indias'')) (ascii ''Indias and Indias'') 11 6 \<and>
   trackSegment (GEO_TERM_PATTERNS pluralEnv) (ascii ''Indias and Indias'') 11 6 = None \<and>
   removeGeographicalTerms pluralEnv (ascii ''Indias and Indias'') = ascii ''and''"
  using plural_matches plural_track plural_removed by (simp add: pluralEnv_def)

end
